theory Spec2Isabelle
  imports Main "HOL-Library.Finite_Map" "HOL-Library.Multiset"
begin

section \<open>Leader checker of querycoordv2: data model\<close>

text \<open>
  The embedding follows \<^verbatim>\<open>internal/querycoordv2/checkers/leader_checker.go\<close>.
  Identifiers and versions are Go \<^verbatim>\<open>int64\<close> values. The checker only compares them
  (\<^verbatim>\<open>!=\<close>, \<^verbatim>\<open><\<close>) and never computes with them, so no wrap-around can occur and
  they are modelled as mathematical integers.
\<close>

type_synonym int64 = int

text \<open>\<^verbatim>\<open>datapb.SegmentInfo\<close>, with the getters the checker calls.\<close>

record SegmentInfo =
  GetID :: int64
  GetCollectionID :: int64
  GetInsertChannel :: string

text \<open>\<^verbatim>\<open>meta.Segment\<close> embeds the segment info and adds the reporting node and the
  placement version.\<close>

record Segment = SegmentInfo +
  Node :: int64
  Version :: int64

text \<open>\<^verbatim>\<open>querypb.SegmentDist\<close>: one entry of a leader view's routing table.\<close>

record SegmentDist =
  GetNodeID :: int64
  GetVersion :: int64

text \<open>\<^verbatim>\<open>meta.LeaderView\<close>. Go maps are finite maps.\<close>

record LeaderView =
  ID :: int64
  CollectionID :: int64
  Channel :: string
  Segments :: "(int64, SegmentDist) fmap"
  PartitionStatsVersions :: "(int64, int64) fmap"

text \<open>\<^verbatim>\<open>meta.DmChannel\<close>. The distribution manager's channels carry the delegator's
  view, which \<^verbatim>\<open>Check\<close> dereferences without a nil test; the target manager's channels
  carry the desired partition statistics versions.\<close>

record DmChannel =
  View :: LeaderView
  GetPartitionStatsVersions :: "(int64, int64) fmap"

record Replica =
  Replica_GetID :: int64
  Replica_GetCollectionID :: int64
  GetRWNodes :: "int64 list"
  GetRWSQNodes :: "int64 list"

record Collection =
  Collection_GetCollectionID :: int64

subsection \<open>Tasks\<close>

datatype ActionType = ActionTypeGrow | ActionTypeReduce | ActionTypeUpdate

datatype Priority = TaskPriorityLow | TaskPriorityNormal | TaskPriorityHigh

datatype CheckerType = LeaderChecker

text \<open>Modelled from the spec: the \<^verbatim>\<open>task\<close> package is not part of the sources at hand.
  A leader action carries the target leader-view ID, the target worker node, the action
  kind, the channel name and its subject: a segment ID with a timestamp hint, or a bundle
  of partition statistics versions. The two constructors keep the arguments that
  \<^verbatim>\<open>task.NewLeaderAction\<close> and \<^verbatim>\<open>task.NewLeaderUpdatePartStatsAction\<close> are called with,
  in the order of the call.\<close>

datatype LeaderAction =
    NewLeaderAction
      (leaderID: int64) (nodeID: int64) (Type: ActionType) (shard: string)
      (segmentID: int64) (version: int64)
  | NewLeaderUpdatePartStatsAction
      (leaderID: int64) (nodeID: int64) (Type: ActionType) (shard: string)
      (partStatsVersions: "(int64, int64) fmap")

datatype TaskKind = LeaderSegmentTask | LeaderPartStatsTask

record Task =
  kind :: TaskKind
  source :: CheckerType
  task_collectionID :: int64
  task_replica :: Replica
  task_leaderID :: int64
  action :: LeaderAction
  priority :: Priority
  reason :: string

text \<open>Modelled from the spec: the task constructors are not part of the sources at hand.
  They store their arguments; the priority and the reason they start with are overwritten
  by \<^verbatim>\<open>SetPriority\<close> and \<^verbatim>\<open>SetReason\<close> before the checker returns the task.\<close>

definition NewLeaderSegmentTask ::
  "CheckerType \<Rightarrow> int64 \<Rightarrow> Replica \<Rightarrow> int64 \<Rightarrow> LeaderAction \<Rightarrow> Task" where
  "NewLeaderSegmentTask src collectionID replica leaderId act =
     \<lparr>kind = LeaderSegmentTask, source = src, task_collectionID = collectionID,
      task_replica = replica, task_leaderID = leaderId, action = act,
      priority = TaskPriorityNormal, reason = []\<rparr>"

definition NewLeaderPartStatsTask ::
  "CheckerType \<Rightarrow> int64 \<Rightarrow> Replica \<Rightarrow> int64 \<Rightarrow> LeaderAction \<Rightarrow> Task" where
  "NewLeaderPartStatsTask src collectionID replica leaderId act =
     \<lparr>kind = LeaderPartStatsTask, source = src, task_collectionID = collectionID,
      task_replica = replica, task_leaderID = leaderId, action = act,
      priority = TaskPriorityNormal, reason = []\<rparr>"

definition SetPriority :: "Priority \<Rightarrow> Task \<Rightarrow> Task" where
  "SetPriority p t = t\<lparr>priority := p\<rparr>"

definition SetReason :: "string \<Rightarrow> Task \<Rightarrow> Task" where
  "SetReason r t = t\<lparr>reason := r\<rparr>"

subsection \<open>The collaborators of the checker\<close>

text \<open>\<^verbatim>\<open>meta.Meta\<close>: the collection manager and the replica manager, as the queries the
  checker sends them. A missing collection is \<open>None\<close> (Go's nil).\<close>

record Meta =
  GetAll :: "int64 list"
  GetCollection :: "int64 \<Rightarrow> Collection option"
  GetByCollection :: "int64 \<Rightarrow> Replica list"

text \<open>\<^verbatim>\<open>meta.DistributionManager\<close>: the channel distribution filtered by collection and
  node, and the segment distribution filtered by channel and replica.\<close>

record DistributionManager =
  ChannelDist_GetByFilter :: "int64 \<Rightarrow> int64 \<Rightarrow> DmChannel list"
  SegmentDist_GetByFilter :: "string \<Rightarrow> Replica \<Rightarrow> Segment list"

datatype TargetScope = CurrentTarget | NextTarget | CurrentTargetFirst | NextTargetFirst

text \<open>Modelled from the spec: the target manager is not part of the sources at hand.
  The target state has a current and a next generation; each answers, for a collection,
  which sealed segments and which channels it holds.\<close>

record TargetManager =
  IsNextTargetExist :: "int64 \<Rightarrow> bool"
  IsCurrentTargetExist :: "int64 \<Rightarrow> int64 \<Rightarrow> bool"
  currentSegments :: "int64 \<Rightarrow> int64 \<Rightarrow> SegmentInfo option"
  nextSegments :: "int64 \<Rightarrow> int64 \<Rightarrow> SegmentInfo option"
  currentDmChannels :: "int64 \<Rightarrow> string \<Rightarrow> DmChannel option"
  nextDmChannels :: "int64 \<Rightarrow> string \<Rightarrow> DmChannel option"

text \<open>Modelled from the spec: a scope selects one generation, or prefers one generation
  and falls back to the other when the preferred one has no entry (the
  current-target-first policy and its mirror image).\<close>

fun byScope :: "TargetScope \<Rightarrow> 'a option \<Rightarrow> 'a option \<Rightarrow> 'a option" where
  "byScope CurrentTarget cur nxt = cur"
| "byScope NextTarget cur nxt = nxt"
| "byScope CurrentTargetFirst cur nxt = (case cur of Some x \<Rightarrow> Some x | None \<Rightarrow> nxt)"
| "byScope NextTargetFirst cur nxt = (case nxt of Some x \<Rightarrow> Some x | None \<Rightarrow> cur)"

definition GetSealedSegment ::
  "TargetManager \<Rightarrow> int64 \<Rightarrow> int64 \<Rightarrow> TargetScope \<Rightarrow> SegmentInfo option" where
  "GetSealedSegment tm collectionID sid scope =
     byScope scope (currentSegments tm collectionID sid) (nextSegments tm collectionID sid)"

definition GetDmChannel ::
  "TargetManager \<Rightarrow> int64 \<Rightarrow> string \<Rightarrow> TargetScope \<Rightarrow> DmChannel option" where
  "GetDmChannel tm collectionID channel scope =
     byScope scope (currentDmChannels tm collectionID channel)
       (nextDmChannels tm collectionID channel)"

text \<open>
  The state the checker runs in: the fields of the \<^verbatim>\<open>LeaderChecker\<close> struct (the
  activation flag of the embedded \<^verbatim>\<open>checkerActivation\<close>, \<^verbatim>\<open>meta\<close>, \<^verbatim>\<open>dist\<close>,
  \<^verbatim>\<open>target\<close>; \<^verbatim>\<open>nodeMgr\<close> is never read) and the process environment it consults:
  \<^item> \<open>IsStreamingServiceEnabled\<close>, the process-wide deployment flag;
  \<^item> \<open>AllPartitionsID\<close>, the constant of package \<^verbatim>\<open>common\<close>;
  \<^item> the clock: \<open>clock k\<close> is what the \<open>k\<close>-th call of \<^verbatim>\<open>time.Now().UnixNano()\<close>
    returns, and \<open>ticks\<close> counts the calls made so far;
  \<^item> \<open>rangeOrder\<close>, the order in which the Go runtime visits the keys of a map in a
    \<^verbatim>\<open>for ... range\<close> loop; the language leaves it unspecified, so it is a parameter
    that rearranges the keys.

  The readers are queries of this one state, so all reads of a run see one snapshot.
  Logging is left out.
\<close>

record world =
  active :: bool
  meta :: Meta
  dist :: DistributionManager
  target :: TargetManager
  IsStreamingServiceEnabled :: bool
  AllPartitionsID :: int64
  clock :: "nat \<Rightarrow> int64"
  ticks :: nat
  rangeOrder :: "int64 list \<Rightarrow> int64 list"

definition IsActive :: "world \<Rightarrow> bool" where
  "IsActive w = active w"

definition time_Now_UnixNano :: "world \<Rightarrow> int64 \<times> world" where
  "time_Now_UnixNano w = (clock w (ticks w), w\<lparr>ticks := Suc (ticks w)\<rparr>)"

text \<open>The entries of a Go map in the order a \<^verbatim>\<open>range\<close> loop visits them.\<close>

definition go_range :: "world \<Rightarrow> (int64, 'v) fmap \<Rightarrow> (int64 \<times> 'v) list" where
  "go_range w m =
     List.map_filter (\<lambda>k. map_option (Pair k) (fmlookup m k))
       (rangeOrder w (sorted_list_of_fset (fmdom m)))"

text \<open>A range loop visits every key exactly once: the order is a rearrangement.\<close>

definition valid_rangeOrder :: "world \<Rightarrow> bool" where
  "valid_rangeOrder w = (\<forall>ks. mset (rangeOrder w ks) = mset ks)"

section \<open>The segment version resolver\<close>

text \<open>Modelled from the spec: \<^verbatim>\<open>utils.FindMaxVersionSegments\<close> is not part of the sources
  at hand. For each segment ID it keeps the placement records carrying the highest
  placement version; records that tie at the highest version are all retained.\<close>

definition FindMaxVersionSegments :: "Segment list \<Rightarrow> Segment list" where
  "FindMaxVersionSegments segments =
     filter (\<lambda>s. \<forall>s' \<in> set segments. GetID s' = GetID s \<longrightarrow> Version s' \<le> Version s) segments"

section \<open>The checker\<close>

definition readyToCheck :: "world \<Rightarrow> int64 \<Rightarrow> bool" where
  "readyToCheck w collectionID =
     (let metaExist = (GetCollection (meta w) collectionID \<noteq> None);
          targetExist = (IsNextTargetExist (target w) collectionID
                         \<or> IsCurrentTargetExist (target w) collectionID (AllPartitionsID w))
      in metaExist \<and> targetExist)"

subsection \<open>findNeedSyncPartitionStats\<close>

text \<open>The loop over \<^verbatim>\<open>partStatsInTarget\<close>. Reading a key that a Go map does not hold
  yields the zero value.\<close>

fun partStatsLoop ::
  "(int64, int64) fmap \<Rightarrow> (int64 \<times> int64) list \<Rightarrow> (int64, int64) fmap \<Rightarrow> (int64, int64) fmap"
  where
  "partStatsLoop partStatsInLView [] partStatsToUpdate = partStatsToUpdate"
| "partStatsLoop partStatsInLView ((partID, psVersionInTarget) # rest) partStatsToUpdate =
     (let psVersionInLView =
            (case fmlookup partStatsInLView partID of None \<Rightarrow> 0 | Some v \<Rightarrow> v)
      in if psVersionInLView < psVersionInTarget
         then partStatsLoop partStatsInLView rest
                (fmupd partID psVersionInTarget partStatsToUpdate)
         else partStatsLoop partStatsInLView rest partStatsToUpdate)"

definition findNeedSyncPartitionStats ::
  "world \<Rightarrow> Replica \<Rightarrow> LeaderView \<Rightarrow> int64 \<Rightarrow> Task list \<times> world" where
  "findNeedSyncPartitionStats w replica leaderView node =
     (case GetDmChannel (target w) (CollectionID leaderView) (Channel leaderView) CurrentTarget of
        None \<Rightarrow> ([], w)
      | Some curDmlChannel \<Rightarrow>
          (let partStatsInTarget = GetPartitionStatsVersions curDmlChannel;
               partStatsInLView = PartitionStatsVersions leaderView;
               partStatsToUpdate =
                 partStatsLoop partStatsInLView (go_range w partStatsInTarget) fmempty
           in if fmdom partStatsToUpdate \<noteq> {||}
              then (let act = NewLeaderUpdatePartStatsAction (ID leaderView) node
                                ActionTypeUpdate (Channel leaderView) partStatsToUpdate;
                        t = NewLeaderPartStatsTask LeaderChecker (CollectionID leaderView)
                              replica (ID leaderView) act
                    in ([SetReason ''sync partition stats versions''
                           (SetPriority TaskPriorityLow t)], w))
              else ([], w)))"

subsection \<open>findNeedLoadedSegments\<close>

definition growTask :: "Replica \<Rightarrow> LeaderView \<Rightarrow> Segment \<Rightarrow> int64 \<Rightarrow> Task" where
  "growTask replica leaderView s now =
     (let act = NewLeaderAction (ID leaderView) (Node s) ActionTypeGrow
                  (GetInsertChannel s) (GetID s) now;
          t = NewLeaderSegmentTask LeaderChecker (GetCollectionID s) replica
                (ID leaderView) act
      in SetReason ''add segment to leader view'' (SetPriority TaskPriorityLow t))"

fun loadedLoop :: "world \<Rightarrow> Replica \<Rightarrow> LeaderView \<Rightarrow> Segment list \<Rightarrow> Task list \<times> world" where
  "loadedLoop w replica leaderView [] = ([], w)"
| "loadedLoop w replica leaderView (s # rest) =
     (case GetSealedSegment (target w) (CollectionID leaderView) (GetID s) CurrentTargetFirst of
        None \<Rightarrow> loadedLoop w replica leaderView rest
      | Some segment \<Rightarrow>
          (if (case fmlookup (Segments leaderView) (GetID s) of
                 None \<Rightarrow> True
               | Some entry \<Rightarrow> GetNodeID entry \<noteq> Node s)
           then (let (now, w1) = time_Now_UnixNano w;
                     t = growTask replica leaderView s now;
                     (ret, w2) = loadedLoop w1 replica leaderView rest
                 in (t # ret, w2))
           else loadedLoop w replica leaderView rest))"

definition findNeedLoadedSegments ::
  "world \<Rightarrow> Replica \<Rightarrow> LeaderView \<Rightarrow> Segment list \<Rightarrow> Task list \<times> world" where
  "findNeedLoadedSegments w replica leaderView dists =
     (let latestNodeDist = FindMaxVersionSegments dists
      in loadedLoop w replica leaderView latestNodeDist)"

subsection \<open>findNeedRemovedSegments\<close>

definition reduceTask :: "Replica \<Rightarrow> LeaderView \<Rightarrow> int64 \<Rightarrow> Task" where
  "reduceTask replica leaderView sid =
     (let act = NewLeaderAction (ID leaderView) (ID leaderView) ActionTypeReduce
                  (Channel leaderView) sid 0;
          t = NewLeaderSegmentTask LeaderChecker (CollectionID leaderView) replica
                (ID leaderView) act
      in SetReason ''remove segment from leader view'' (SetPriority TaskPriorityLow t))"

text \<open>\<^verbatim>\<open>distMap\<close> is a map to the empty struct, that is, a set of segment IDs.\<close>

fun removedLoop ::
  "world \<Rightarrow> Replica \<Rightarrow> LeaderView \<Rightarrow> int64 fset \<Rightarrow> (int64 \<times> SegmentDist) list \<Rightarrow> Task list"
  where
  "removedLoop w replica leaderView distMap [] = []"
| "removedLoop w replica leaderView distMap ((sid, s) # rest) =
     (let ok = (sid |\<in>| distMap);
          segment = GetSealedSegment (target w) (CollectionID leaderView) sid CurrentTargetFirst;
          existInTarget = (segment \<noteq> None)
      in if ok \<or> existInTarget
         then removedLoop w replica leaderView distMap rest
         else reduceTask replica leaderView sid
                # removedLoop w replica leaderView distMap rest)"

definition findNeedRemovedSegments ::
  "world \<Rightarrow> Replica \<Rightarrow> LeaderView \<Rightarrow> Segment list \<Rightarrow> Task list \<times> world" where
  "findNeedRemovedSegments w replica leaderView dists =
     (let distMap = fold (\<lambda>s m. finsert (GetID s) m) dists {||}
      in (removedLoop w replica leaderView distMap (go_range w (Segments leaderView)), w))"

subsection \<open>Check\<close>

text \<open>\<^verbatim>\<open>for _, x := range xs { tasks = append(tasks, body(x)...) }\<close> over a slice, with
  the state handed from one round to the next.\<close>

fun forEach ::
  "('a \<Rightarrow> world \<Rightarrow> Task list \<times> world) \<Rightarrow> 'a list \<Rightarrow> world \<Rightarrow> Task list \<times> world" where
  "forEach body [] w = ([], w)"
| "forEach body (x # xs) w =
     (let (ts, w1) = body x w;
          (ts', w2) = forEach body xs w1
      in (ts @ ts', w2))"

definition checkDelegator :: "Replica \<Rightarrow> int64 \<Rightarrow> DmChannel \<Rightarrow> world \<Rightarrow> Task list \<times> world" where
  "checkDelegator replica node d w =
     (let dists = SegmentDist_GetByFilter (dist w) (Channel (View d)) replica;
          (t1, w1) = findNeedLoadedSegments w replica (View d) dists;
          (t2, w2) = findNeedRemovedSegments w1 replica (View d) dists;
          (t3, w3) = findNeedSyncPartitionStats w2 replica (View d) node
      in (t1 @ t2 @ t3, w3))"

definition checkNode :: "Replica \<Rightarrow> int64 \<Rightarrow> world \<Rightarrow> Task list \<times> world" where
  "checkNode replica node w =
     (let delegatorList =
            ChannelDist_GetByFilter (dist w) (Replica_GetCollectionID replica) node
      in forEach (checkDelegator replica node) delegatorList w)"

definition checkReplica :: "Replica \<Rightarrow> world \<Rightarrow> Task list \<times> world" where
  "checkReplica replica w =
     (let nodes = (if IsStreamingServiceEnabled w then GetRWSQNodes replica
                   else GetRWNodes replica)
      in forEach (checkNode replica) nodes w)"

definition checkCollection :: "int64 \<Rightarrow> world \<Rightarrow> Task list \<times> world" where
  "checkCollection collectionID w =
     (if \<not> readyToCheck w collectionID then ([], w)
      else case GetCollection (meta w) collectionID of
             None \<Rightarrow> ([], w)
           | Some collection \<Rightarrow>
               (let replicas = GetByCollection (meta w) collectionID
                in forEach checkReplica replicas w))"

definition Check :: "world \<Rightarrow> Task list \<times> world" where
  "Check w =
     (if \<not> IsActive w then ([], w)
      else (let collectionIDs = GetAll (meta w)
            in forEach checkCollection collectionIDs w))"

section \<open>A small cluster\<close>

text \<open>
  One collection with one replica on nodes 1 and 2; node 1 is the delegator of channel
  \<open>ch1\<close>. Its view routes segment 100 to node 1 and segment 300 to node 2. The workers
  report segment 100 on node 1 (version 1) and on node 2 (version 2) and segment 200 on
  node 2. The current target holds segments 100 and 200 and asks for partition statistics
  versions 3 and 5 for partitions 1 and 2, of which the view has 3 and 2.
\<close>

definition ex_replica :: Replica where
  "ex_replica = \<lparr>Replica_GetID = 10, Replica_GetCollectionID = 1,
                  GetRWNodes = [1, 2], GetRWSQNodes = [7]\<rparr>"

definition ex_view :: LeaderView where
  "ex_view = \<lparr>ID = 1, CollectionID = 1, Channel = ''ch1'',
     Segments = fmap_of_list [(100, \<lparr>GetNodeID = 1, GetVersion = 1\<rparr>),
                              (300, \<lparr>GetNodeID = 2, GetVersion = 1\<rparr>)],
     PartitionStatsVersions = fmap_of_list [(1, 3), (2, 2)]\<rparr>"

definition ex_seg :: "int64 \<Rightarrow> int64 \<Rightarrow> int64 \<Rightarrow> Segment" where
  "ex_seg sid n v = \<lparr>GetID = sid, GetCollectionID = 1, GetInsertChannel = ''ch1'',
                     Node = n, Version = v\<rparr>"

definition ex_dists :: "Segment list" where
  "ex_dists = [ex_seg 100 1 1, ex_seg 100 2 2, ex_seg 200 2 1]"

definition ex_channel :: DmChannel where
  "ex_channel = \<lparr>View = ex_view, GetPartitionStatsVersions = fmap_of_list [(1, 3), (2, 5)]\<rparr>"

definition ex_target :: TargetManager where
  "ex_target = \<lparr>
     IsNextTargetExist = (\<lambda>c. False),
     IsCurrentTargetExist = (\<lambda>c p. c = 1),
     currentSegments = (\<lambda>c sid. if c = 1 \<and> (sid = 100 \<or> sid = 200)
        then Some \<lparr>GetID = sid, GetCollectionID = 1, GetInsertChannel = ''ch1''\<rparr> else None),
     nextSegments = (\<lambda>c sid. None),
     currentDmChannels = (\<lambda>c ch. if c = 1 \<and> ch = ''ch1'' then Some ex_channel else None),
     nextDmChannels = (\<lambda>c ch. None)\<rparr>"

definition ex_world :: world where
  "ex_world = \<lparr>active = True,
     meta = \<lparr>GetAll = [1, 2],
             GetCollection = (\<lambda>c. if c = 1 then Some \<lparr>Collection_GetCollectionID = 1\<rparr> else None),
             GetByCollection = (\<lambda>c. if c = 1 then [ex_replica] else [])\<rparr>,
     dist = \<lparr>ChannelDist_GetByFilter = (\<lambda>c n. if c = 1 \<and> n = 1
                 then [\<lparr>View = ex_view, GetPartitionStatsVersions = fmempty\<rparr>] else []),
             SegmentDist_GetByFilter = (\<lambda>ch r. if ch = ''ch1'' then ex_dists else [])\<rparr>,
     target = ex_target,
     IsStreamingServiceEnabled = False,
     AllPartitionsID = - 1,
     clock = (\<lambda>k. 1000 + int k),
     ticks = 0,
     rangeOrder = rev\<rparr>"

section \<open>Auxiliary notions for the proofs\<close>

text \<open>The test that \<^verbatim>\<open>findNeedLoadedSegments\<close> applies to one observed placement: the
  segment is in the target, and the view has no entry for it or routes it elsewhere.\<close>

definition needLoad :: "world \<Rightarrow> LeaderView \<Rightarrow> Segment \<Rightarrow> bool" where
  "needLoad w leaderView s =
     (GetSealedSegment (target w) (CollectionID leaderView) (GetID s) CurrentTargetFirst \<noteq> None
      \<and> (case fmlookup (Segments leaderView) (GetID s) of
            None \<Rightarrow> True
          | Some entry \<Rightarrow> GetNodeID entry \<noteq> Node s))"

text \<open>The test that \<^verbatim>\<open>findNeedRemovedSegments\<close> applies to one key of the view's segment
  map: no observed placement and no entry in the target.\<close>

definition needRemove :: "world \<Rightarrow> LeaderView \<Rightarrow> int64 fset \<Rightarrow> int64 \<Rightarrow> bool" where
  "needRemove w leaderView distMap sid =
     (sid |\<notin>| distMap
      \<and> GetSealedSegment (target w) (CollectionID leaderView) sid CurrentTargetFirst = None)"

text \<open>The version that \<^verbatim>\<open>findNeedSyncPartitionStats\<close> has to push for partition \<open>p\<close>, given
  the view's recorded versions and the desired versions of a channel descriptor: the
  desired version when it is greater than the recorded one, nothing otherwise.\<close>

definition staleVersion :: "(int64, int64) fmap \<Rightarrow> (int64, int64) fmap \<Rightarrow> int64 \<Rightarrow> int64 option" where
  "staleVersion partStatsInLView partStatsInTarget p =
     (case fmlookup partStatsInTarget p of
        None \<Rightarrow> None
      | Some v \<Rightarrow>
          if (case fmlookup partStatsInLView p of None \<Rightarrow> 0 | Some r \<Rightarrow> r) < v
          then Some v else None)"

text \<open>A cluster whose current target does not hold channel \<open>ch1\<close> while the next target
  does, asking for version 5 of partition 2.\<close>

definition nx_world :: world where
  "nx_world = ex_world\<lparr>target := ex_target\<lparr>
     currentDmChannels := (\<lambda>c ch. None),
     nextDmChannels := (\<lambda>c ch. if c = 1 \<and> ch = ''ch1'' then Some ex_channel else None)\<rparr>\<rparr>"

text \<open>The content of a task: everything but the timestamp hint of a grow action.\<close>

fun eraseVersion :: "LeaderAction \<Rightarrow> LeaderAction" where
  "eraseVersion (NewLeaderAction l n ty sh sid v) =
     NewLeaderAction l n ty sh sid (if ty = ActionTypeGrow then 0 else v)"
| "eraseVersion (NewLeaderUpdatePartStatsAction l n ty sh batch) =
     NewLeaderUpdatePartStatsAction l n ty sh batch"

definition content :: "Task \<Rightarrow> Task" where
  "content t = t\<lparr>action := eraseVersion (action t)\<rparr>"

text \<open>Two states offer the same snapshot when the gate, the three readers and the
  process configuration agree; the clock and the order of map iteration may differ.\<close>

definition same_snapshot :: "world \<Rightarrow> world \<Rightarrow> bool" where
  "same_snapshot w w' =
     (active w = active w' \<and> meta w = meta w' \<and> dist w = dist w' \<and> target w = target w'
      \<and> IsStreamingServiceEnabled w = IsStreamingServiceEnabled w'
      \<and> AllPartitionsID w = AllPartitionsID w')"

text \<open>What a run may change in the state: the number of clock readings taken.\<close>

definition only_ticks :: "world \<Rightarrow> world \<Rightarrow> bool" where
  "only_ticks w w' = (\<exists>n. w' = w\<lparr>ticks := n\<rparr>)"

text \<open>Two runs can be compared when they see the same snapshot and each visits the keys
  of every map exactly once.\<close>

definition comparable :: "world \<Rightarrow> world \<Rightarrow> bool" where
  "comparable w w' = (same_snapshot w w' \<and> valid_rangeOrder w \<and> valid_rangeOrder w')"

text \<open>The delegators that \<^verbatim>\<open>Check\<close> visits when the gate is active, in the order of the
  scan: for every ready collection, every replica, every member node of the set that the
  deployment flag selects, every channel the node is the delegator of.\<close>

definition delegators :: "world \<Rightarrow> (Replica \<times> int64 \<times> DmChannel) list" where
  "delegators w =
     concat (map (\<lambda>collectionID.
       if readyToCheck w collectionID \<and> GetCollection (meta w) collectionID \<noteq> None
       then concat (map (\<lambda>replica.
              concat (map (\<lambda>node.
                map (\<lambda>d. (replica, node, d))
                  (ChannelDist_GetByFilter (dist w) (Replica_GetCollectionID replica) node))
                (if IsStreamingServiceEnabled w then GetRWSQNodes replica
                 else GetRWNodes replica)))
              (GetByCollection (meta w) collectionID))
       else [])
       (GetAll (meta w)))"

text \<open>The tasks that the three sub-diffs emit for one visited delegator.\<close>

definition delegatorTasks :: "world \<Rightarrow> Replica \<times> int64 \<times> DmChannel \<Rightarrow> Task list" where
  "delegatorTasks w x = (case x of (replica, node, d) \<Rightarrow> fst (checkDelegator replica node d w))"

text \<open>Modelled from the spec: the executor of the tasks is not part of the sources at
  hand. Applying a grow task to a leader view sets the view's entry for the segment; the
  view is the one of the given delegator node and channel, as the distribution manager
  reports it afterwards.\<close>

definition setRoute :: "int64 \<Rightarrow> string \<Rightarrow> int64 \<Rightarrow> SegmentDist \<Rightarrow> DmChannel \<Rightarrow> DmChannel" where
  "setRoute leaderId channel sid entry d =
     (if ID (View d) = leaderId \<and> Channel (View d) = channel
      then d\<lparr>View := (View d)\<lparr>Segments := fmupd sid entry (Segments (View d))\<rparr>\<rparr>
      else d)"

definition applyGrow :: "int64 \<Rightarrow> string \<Rightarrow> int64 \<Rightarrow> SegmentDist \<Rightarrow> world \<Rightarrow> world" where
  "applyGrow leaderId channel sid entry w =
     w\<lparr>dist := (dist w)\<lparr>ChannelDist_GetByFilter :=
          (\<lambda>collectionID node. map (setRoute leaderId channel sid entry)
             (ChannelDist_GetByFilter (dist w) collectionID node))\<rparr>\<rparr>"

section \<open>Ranging over a Go map\<close>

lemma go_range_mset:
  assumes "valid_rangeOrder w"
  shows "mset (go_range w m) = mset (map (\<lambda>k. (k, the (fmlookup m k))) (sorted_list_of_fset (fmdom m)))"
proof -
  let ?f = "\<lambda>k. map_option (Pair k) (fmlookup m k)"
  let ?ks = "sorted_list_of_fset (fmdom m)"
  have "mset (List.map_filter ?f (rangeOrder w ?ks))
        = image_mset (the \<circ> ?f) (filter_mset (\<lambda>x. ?f x \<noteq> None) (mset (rangeOrder w ?ks)))"
    by (simp add: List.map_filter_def)
  also have "\<dots> = image_mset (the \<circ> ?f) (filter_mset (\<lambda>x. ?f x \<noteq> None) (mset ?ks))"
    using assms by (simp add: valid_rangeOrder_def)
  also have "\<dots> = image_mset (the \<circ> ?f) (mset ?ks)"
  proof -
    have "filter_mset (\<lambda>x. ?f x \<noteq> None) (mset ?ks) = mset ?ks"
      by (rule multiset_eqI) (auto simp: count_eq_zero_iff fmdom_notI)
    then show ?thesis by simp
  qed
  also have "\<dots> = mset (map (\<lambda>k. (k, the (fmlookup m k))) ?ks)"
    by (auto simp: fmlookup_dom_iff intro!: image_mset_cong)
  finally show ?thesis by (simp add: go_range_def)
qed

lemma go_range_keys_mset:
  assumes "valid_rangeOrder w"
  shows "mset (map fst (go_range w m)) = mset (sorted_list_of_fset (fmdom m))"
proof -
  let ?ks = "sorted_list_of_fset (fmdom m)"
  have "mset (map fst (go_range w m))
        = mset (map fst (map (\<lambda>k. (k, the (fmlookup m k))) ?ks))"
    using go_range_mset [OF assms, of m] by (metis mset_map)
  also have "map fst (map (\<lambda>k. (k, the (fmlookup m k))) ?ks) = ?ks"
    by (simp add: comp_def)
  finally show ?thesis .
qed

lemma distinct_sorted_list_of_fset:
  "distinct (sorted_list_of_fset S)"
  by (simp add: sorted_list_of_fset.rep_eq)

lemma go_range_keys_distinct:
  assumes "valid_rangeOrder w"
  shows "distinct (map fst (go_range w m))"
  using mset_eq_imp_distinct_iff [OF go_range_keys_mset [OF assms, of m]]
  by (simp add: distinct_sorted_list_of_fset)

lemma go_range_keys_set:
  assumes "valid_rangeOrder w"
  shows "set (map fst (go_range w m)) = fset (fmdom m)"
  using mset_eq_setD [OF go_range_keys_mset [OF assms, of m]]
  by simp

lemma go_range_lookup:
  "(k, v) \<in> set (go_range w m) \<Longrightarrow> fmlookup m k = Some v"
  by (auto simp: go_range_def List.map_filter_def)

lemma go_range_map_of:
  assumes "valid_rangeOrder w"
  shows "map_of (go_range w m) k = fmlookup m k"
proof (cases "fmlookup m k")
  case None
  then have "k \<notin> set (map fst (go_range w m))"
    unfolding go_range_keys_set [OF assms] by (simp add: fmdom_notI)
  then show ?thesis
    using None by (simp add: map_of_eq_None_iff)
next
  case (Some v)
  then have "k \<in> set (map fst (go_range w m))"
    unfolding go_range_keys_set [OF assms] by (simp add: fmdomI)
  then obtain v' where in_range: "(k, v') \<in> set (go_range w m)"
    by auto
  from go_range_lookup [OF this] Some have "v' = v" by simp
  with in_range go_range_keys_distinct [OF assms, of m] Some show ?thesis
    by simp
qed

section \<open>Segments to load\<close>

lemma loadedLoop_closed:
  "loadedLoop w replica lv ss =
     (map (\<lambda>(k, s). growTask replica lv s (clock w k))
        (List.enumerate (ticks w) (filter (needLoad w lv) ss)),
      w\<lparr>ticks := ticks w + length (filter (needLoad w lv) ss)\<rparr>)"
proof (induction ss arbitrary: w)
  case Nil
  show ?case by simp
next
  case (Cons s rest)
  show ?case
  proof (cases "needLoad w lv s")
    case False
    then show ?thesis
      using Cons.IH [of w]
      by (auto simp: needLoad_def split: option.splits)
  next
    case True
    let ?w1 = "w\<lparr>ticks := Suc (ticks w)\<rparr>"
    have nl: "needLoad ?w1 lv = needLoad w lv"
      by (rule ext) (simp add: needLoad_def)
    show ?thesis
      using True Cons.IH [of ?w1]
      by (auto simp: needLoad_def [of w lv s] nl time_Now_UnixNano_def split: option.splits)
  qed
qed

lemma growTask_fields:
  "kind (growTask replica lv s now) = LeaderSegmentTask"
  "source (growTask replica lv s now) = LeaderChecker"
  "task_collectionID (growTask replica lv s now) = GetCollectionID s"
  "task_replica (growTask replica lv s now) = replica"
  "task_leaderID (growTask replica lv s now) = ID lv"
  "action (growTask replica lv s now) =
     NewLeaderAction (ID lv) (Node s) ActionTypeGrow (GetInsertChannel s) (GetID s) now"
  "priority (growTask replica lv s now) = TaskPriorityLow"
  "reason (growTask replica lv s now) = ''add segment to leader view''"
  by (simp_all add: growTask_def NewLeaderSegmentTask_def SetPriority_def SetReason_def)

lemma loadedLoop_ticks:
  "ticks (snd (loadedLoop w replica lv ss)) = ticks w + length (filter (needLoad w lv) ss)"
  by (simp add: loadedLoop_closed)

lemma loadedLoop_sound:
  assumes "t \<in> set (fst (loadedLoop w replica lv ss))"
  shows "\<exists>s \<in> set ss. needLoad w lv s \<and>
           (\<exists>k. ticks w \<le> k \<and> k < ticks (snd (loadedLoop w replica lv ss))
                \<and> t = growTask replica lv s (clock w k))"
proof -
  let ?xs = "filter (needLoad w lv) ss"
  from assms obtain k s where ks: "(k, s) \<in> set (List.enumerate (ticks w) ?xs)"
    and t: "t = growTask replica lv s (clock w k)"
    by (auto simp: loadedLoop_closed)
  from ks have "ticks w \<le> k" "k < length ?xs + ticks w" "?xs ! (k - ticks w) = s"
    by (simp_all add: in_set_enumerate_eq)
  then have k: "ticks w \<le> k" "k < ticks (snd (loadedLoop w replica lv ss))"
    and i: "k - ticks w < length ?xs" "?xs ! (k - ticks w) = s"
    by (auto simp: loadedLoop_ticks)
  have "s \<in> set ?xs"
    using nth_mem [OF i(1)] i(2) by simp
  then have "s \<in> set ss" "needLoad w lv s"
    by simp_all
  with k t show ?thesis
    by blast
qed

lemma loadedLoop_complete:
  assumes "s \<in> set ss" and "needLoad w lv s"
  shows "\<exists>k. ticks w \<le> k \<and> k < ticks (snd (loadedLoop w replica lv ss))
              \<and> growTask replica lv s (clock w k) \<in> set (fst (loadedLoop w replica lv ss))"
proof -
  let ?xs = "filter (needLoad w lv) ss"
  from assms have "s \<in> set ?xs" by simp
  then obtain i where i: "i < length ?xs" "?xs ! i = s"
    by (metis in_set_conv_nth)
  then have "(ticks w + i, s) \<in> set (List.enumerate (ticks w) ?xs)"
    by (simp add: in_set_enumerate_eq)
  then have "growTask replica lv s (clock w (ticks w + i))
               \<in> set (fst (loadedLoop w replica lv ss))"
    by (force simp: loadedLoop_closed)
  with i show ?thesis
    by (intro exI [of _ "ticks w + i"]) (simp add: loadedLoop_ticks)
qed

text \<open>
  Claim C1. Take any resolved observed placement \<open>s\<close> of the view's channel whose segment
  the current-target-first lookup finds. \<^verbatim>\<open>findNeedLoadedSegments\<close> emits a grow task for
  it (same segment ID, same worker node) exactly when the view has no entry for the
  segment or its entry names another node. In that case a task with leader-view ID the
  view's ID, worker node the placement's node, channel the placement's insert channel and
  subject the segment ID is emitted, stamped with a reading of the clock taken during the
  call. Every emitted task is of this shape for some resolved placement found in the target.
\<close>

theorem grow_task_iff:
  assumes resolved: "s \<in> set (FindMaxVersionSegments dists)"
    and desired: "GetSealedSegment (target w) (CollectionID leaderView) (GetID s)
                    CurrentTargetFirst \<noteq> None"
  shows
    "((\<exists>t \<in> set (fst (findNeedLoadedSegments w replica leaderView dists)).
         Type (action t) = ActionTypeGrow \<and> segmentID (action t) = GetID s
         \<and> nodeID (action t) = Node s)
      \<longleftrightarrow> (fmlookup (Segments leaderView) (GetID s) = None
           \<or> (\<exists>entry. fmlookup (Segments leaderView) (GetID s) = Some entry
                 \<and> GetNodeID entry \<noteq> Node s)))
     \<and> ((fmlookup (Segments leaderView) (GetID s) = None
           \<or> (\<exists>entry. fmlookup (Segments leaderView) (GetID s) = Some entry
                 \<and> GetNodeID entry \<noteq> Node s))
          \<longrightarrow> (\<exists>t \<in> set (fst (findNeedLoadedSegments w replica leaderView dists)).
                 \<exists>k. ticks w \<le> k
                   \<and> k < ticks (snd (findNeedLoadedSegments w replica leaderView dists))
                   \<and> kind t = LeaderSegmentTask
                   \<and> task_leaderID t = ID leaderView
                   \<and> action t = NewLeaderAction (ID leaderView) (Node s) ActionTypeGrow
                                  (GetInsertChannel s) (GetID s) (clock w k)))
     \<and> (\<forall>t \<in> set (fst (findNeedLoadedSegments w replica leaderView dists)).
           \<exists>s' \<in> set (FindMaxVersionSegments dists).
           \<exists>k. ticks w \<le> k
             \<and> k < ticks (snd (findNeedLoadedSegments w replica leaderView dists))
             \<and> GetSealedSegment (target w) (CollectionID leaderView) (GetID s')
                  CurrentTargetFirst \<noteq> None
             \<and> kind t = LeaderSegmentTask
             \<and> task_leaderID t = ID leaderView
             \<and> action t = NewLeaderAction (ID leaderView) (Node s') ActionTypeGrow
                            (GetInsertChannel s') (GetID s') (clock w k))"
proof -
  let ?ss = "FindMaxVersionSegments dists"
  let ?cond = "fmlookup (Segments leaderView) (GetID s) = None
           \<or> (\<exists>entry. fmlookup (Segments leaderView) (GetID s) = Some entry
                 \<and> GetNodeID entry \<noteq> Node s)"
  have need: "needLoad w leaderView s \<longleftrightarrow> ?cond"
    using desired by (auto simp: needLoad_def split: option.splits)
  have fwd: "?cond" if "t \<in> set (fst (loadedLoop w replica leaderView ?ss))"
    "segmentID (action t) = GetID s" "nodeID (action t) = Node s" for t
  proof -
    from loadedLoop_sound [OF that(1)] obtain s' k where
      "needLoad w leaderView s'" "t = growTask replica leaderView s' (clock w k)"
      by blast
    with that(2,3) have "GetID s' = GetID s" "Node s' = Node s" "needLoad w leaderView s'"
      by (simp_all add: growTask_fields)
    then show ?thesis
      by (auto simp: needLoad_def split: option.splits)
  qed
  have bwd: "\<exists>t \<in> set (fst (loadedLoop w replica leaderView ?ss)).
               \<exists>k. ticks w \<le> k \<and> k < ticks (snd (loadedLoop w replica leaderView ?ss))
                 \<and> kind t = LeaderSegmentTask \<and> task_leaderID t = ID leaderView
                 \<and> action t = NewLeaderAction (ID leaderView) (Node s) ActionTypeGrow
                                (GetInsertChannel s) (GetID s) (clock w k)" if "?cond"
  proof -
    from that need have "needLoad w leaderView s" by simp
    from loadedLoop_complete [OF resolved this, of replica] obtain k where
      "ticks w \<le> k" "k < ticks (snd (loadedLoop w replica leaderView ?ss))"
      "growTask replica leaderView s (clock w k)
         \<in> set (fst (loadedLoop w replica leaderView ?ss))"
      by blast
    then show ?thesis
      by (intro bexI [of _ "growTask replica leaderView s (clock w k)"] exI [of _ k])
         (simp_all add: growTask_fields)
  qed
  have iff: "(\<exists>t \<in> set (fst (loadedLoop w replica leaderView ?ss)).
           Type (action t) = ActionTypeGrow \<and> segmentID (action t) = GetID s
           \<and> nodeID (action t) = Node s) \<longleftrightarrow> ?cond"
  proof
    assume "\<exists>t \<in> set (fst (loadedLoop w replica leaderView ?ss)).
           Type (action t) = ActionTypeGrow \<and> segmentID (action t) = GetID s
           \<and> nodeID (action t) = Node s"
    then show ?cond using fwd by blast
  next
    assume ?cond
    from bwd [OF this] obtain t k where "t \<in> set (fst (loadedLoop w replica leaderView ?ss))"
      "action t = NewLeaderAction (ID leaderView) (Node s) ActionTypeGrow
                                (GetInsertChannel s) (GetID s) (clock w k)"
      by blast
    then show "\<exists>t \<in> set (fst (loadedLoop w replica leaderView ?ss)).
           Type (action t) = ActionTypeGrow \<and> segmentID (action t) = GetID s
           \<and> nodeID (action t) = Node s"
      by (intro bexI [of _ t]) simp_all
  qed
  have every: "\<exists>s' \<in> set ?ss. \<exists>k. ticks w \<le> k
             \<and> k < ticks (snd (loadedLoop w replica leaderView ?ss))
             \<and> GetSealedSegment (target w) (CollectionID leaderView) (GetID s')
                  CurrentTargetFirst \<noteq> None
             \<and> kind t = LeaderSegmentTask
             \<and> task_leaderID t = ID leaderView
             \<and> action t = NewLeaderAction (ID leaderView) (Node s') ActionTypeGrow
                            (GetInsertChannel s') (GetID s') (clock w k)"
    if "t \<in> set (fst (loadedLoop w replica leaderView ?ss))" for t
  proof -
    from loadedLoop_sound [OF that] obtain s' k where
      "s' \<in> set ?ss" "needLoad w leaderView s'" "ticks w \<le> k"
      "k < ticks (snd (loadedLoop w replica leaderView ?ss))"
      "t = growTask replica leaderView s' (clock w k)"
      by blast
    then show ?thesis
      by (intro bexI [of _ s'] exI [of _ k]) (simp_all add: growTask_fields needLoad_def)
  qed
  from iff bwd every show ?thesis
    unfolding findNeedLoadedSegments_def Let_def by blast
qed

theorem grow_task_iff_witness:
  "ex_seg 100 2 2 \<in> set (FindMaxVersionSegments ex_dists)
   \<and> GetSealedSegment (target ex_world) (CollectionID ex_view) (GetID (ex_seg 100 2 2))
        CurrentTargetFirst \<noteq> None
   \<and> fmlookup (Segments ex_view) 100 = Some \<lparr>GetNodeID = 1, GetVersion = 1\<rparr>
   \<and> (\<exists>t \<in> set (fst (findNeedLoadedSegments ex_world ex_replica ex_view ex_dists)).
         Type (action t) = ActionTypeGrow \<and> segmentID (action t) = 100
         \<and> nodeID (action t) = 2)"
proof -
  have h1: "ex_seg 100 2 2 \<in> set (FindMaxVersionSegments ex_dists)"
    by (simp add: FindMaxVersionSegments_def ex_dists_def ex_seg_def)
  have h2: "GetSealedSegment (target ex_world) (CollectionID ex_view)
              (GetID (ex_seg 100 2 2)) CurrentTargetFirst \<noteq> None"
    by (simp add: GetSealedSegment_def ex_world_def ex_target_def ex_view_def ex_seg_def)
  have h3: "fmlookup (Segments ex_view) 100 = Some \<lparr>GetNodeID = 1, GetVersion = 1\<rparr>"
    by (simp add: ex_view_def)
  have ids: "GetID (ex_seg 100 2 2) = 100" "Node (ex_seg 100 2 2) = 2"
    by (simp_all add: ex_seg_def)
  from grow_task_iff [OF h1 h2, of ex_replica] h3
  have "\<exists>t \<in> set (fst (findNeedLoadedSegments ex_world ex_replica ex_view ex_dists)).
         Type (action t) = ActionTypeGrow \<and> segmentID (action t) = 100
         \<and> nodeID (action t) = 2"
    unfolding ids by simp
  with h1 h2 h3 show ?thesis by blast
qed

section \<open>Segments to remove\<close>

lemma distMap_member:
  "sid |\<in>| fold (\<lambda>s m. finsert (GetID s) m) dists A
     \<longleftrightarrow> sid \<in> GetID ` set dists \<or> sid |\<in>| A"
  by (induction dists arbitrary: A) auto

lemma removedLoop_closed:
  "removedLoop w replica lv distMap xs =
     map (reduceTask replica lv) (filter (needRemove w lv distMap) (map fst xs))"
  by (induction xs) (auto simp: needRemove_def)

lemma reduceTask_fields:
  "kind (reduceTask replica lv sid) = LeaderSegmentTask"
  "source (reduceTask replica lv sid) = LeaderChecker"
  "task_collectionID (reduceTask replica lv sid) = CollectionID lv"
  "task_replica (reduceTask replica lv sid) = replica"
  "task_leaderID (reduceTask replica lv sid) = ID lv"
  "action (reduceTask replica lv sid) =
     NewLeaderAction (ID lv) (ID lv) ActionTypeReduce (Channel lv) sid 0"
  "priority (reduceTask replica lv sid) = TaskPriorityLow"
  "reason (reduceTask replica lv sid) = ''remove segment from leader view''"
  by (simp_all add: reduceTask_def NewLeaderSegmentTask_def SetPriority_def SetReason_def)

lemma filter_eq_distinct:
  "distinct xs \<Longrightarrow>
     filter (\<lambda>y. y = x) (filter P xs) = (if x \<in> set xs \<and> P x then [x] else [])"
  by (induction xs) auto

lemma byScope_CurrentTargetFirst_None:
  "byScope CurrentTargetFirst cur nxt = None \<longleftrightarrow> cur = None \<and> nxt = None"
  by (cases cur) simp_all

text \<open>
  Claim C2. Take any segment ID \<open>sid\<close> in the view's segment map. \<^verbatim>\<open>findNeedRemovedSegments\<close>
  emits a reduce task for it exactly when no observed placement of the channel and replica
  carries that ID and the current-target-first lookup finds nothing, which is the case
  exactly when neither the current nor the next generation holds the segment. Then there
  is exactly one task for \<open>sid\<close>; its worker node is the view's own ID, its channel the
  view's channel, its subject \<open>sid\<close> and its timestamp hint 0. Every emitted task has this
  shape for some key of the view's segment map.
\<close>

theorem reduce_task_iff:
  assumes order: "valid_rangeOrder w"
    and present: "fmlookup (Segments leaderView) sid = Some entry"
  shows
    "((\<exists>t \<in> set (fst (findNeedRemovedSegments w replica leaderView dists)).
         segmentID (action t) = sid)
      \<longleftrightarrow> (sid \<notin> GetID ` set dists
           \<and> GetSealedSegment (target w) (CollectionID leaderView) sid CurrentTargetFirst
               = None))
     \<and> (GetSealedSegment (target w) (CollectionID leaderView) sid CurrentTargetFirst = None
          \<longleftrightarrow> currentSegments (target w) (CollectionID leaderView) sid = None
              \<and> nextSegments (target w) (CollectionID leaderView) sid = None)
     \<and> (sid \<notin> GetID ` set dists
          \<and> GetSealedSegment (target w) (CollectionID leaderView) sid CurrentTargetFirst
              = None
          \<longrightarrow> (\<exists>t. filter (\<lambda>t. segmentID (action t) = sid)
                      (fst (findNeedRemovedSegments w replica leaderView dists)) = [t]
                 \<and> kind t = LeaderSegmentTask
                 \<and> task_leaderID t = ID leaderView
                 \<and> action t = NewLeaderAction (ID leaderView) (ID leaderView)
                                ActionTypeReduce (Channel leaderView) sid 0))
     \<and> (\<forall>t \<in> set (fst (findNeedRemovedSegments w replica leaderView dists)).
           \<exists>sid'. fmlookup (Segments leaderView) sid' \<noteq> None
             \<and> kind t = LeaderSegmentTask
             \<and> task_leaderID t = ID leaderView
             \<and> action t = NewLeaderAction (ID leaderView) (ID leaderView)
                            ActionTypeReduce (Channel leaderView) sid' 0)"
proof -
  let ?dm = "fold (\<lambda>s m. finsert (GetID s) m) dists {||}"
  let ?ks = "map fst (go_range w (Segments leaderView))"
  let ?need = "needRemove w leaderView ?dm"
  let ?tasks = "fst (findNeedRemovedSegments w replica leaderView dists)"
  have tasks: "?tasks = map (reduceTask replica leaderView) (filter ?need ?ks)"
    by (simp add: findNeedRemovedSegments_def removedLoop_closed)
  have need: "?need k \<longleftrightarrow> k \<notin> GetID ` set dists
      \<and> GetSealedSegment (target w) (CollectionID leaderView) k CurrentTargetFirst = None"
    for k
    by (simp add: needRemove_def distMap_member)
  have dist: "distinct ?ks"
    by (rule go_range_keys_distinct [OF order])
  have mem: "sid \<in> set ?ks"
    using present go_range_keys_set [OF order, of "Segments leaderView"]
    by (simp add: fmlookup_dom_iff)
  have sel: "filter (\<lambda>t. segmentID (action t) = sid) ?tasks
             = map (reduceTask replica leaderView) (filter (\<lambda>k. k = sid) (filter ?need ?ks))"
    by (simp add: tasks filter_map comp_def reduceTask_fields)
  have one: "filter (\<lambda>k. k = sid) (filter ?need ?ks) = (if ?need sid then [sid] else [])"
    unfolding filter_eq_distinct [OF dist] using mem by simp
  have iff: "(\<exists>t \<in> set ?tasks. segmentID (action t) = sid) \<longleftrightarrow> ?need sid"
    using mem by (auto simp: tasks reduceTask_fields)
  have every: "\<exists>sid'. fmlookup (Segments leaderView) sid' \<noteq> None
             \<and> kind t = LeaderSegmentTask
             \<and> task_leaderID t = ID leaderView
             \<and> action t = NewLeaderAction (ID leaderView) (ID leaderView)
                            ActionTypeReduce (Channel leaderView) sid' 0"
    if "t \<in> set ?tasks" for t
  proof -
    from that obtain k where k: "k \<in> set ?ks" "t = reduceTask replica leaderView k"
      by (auto simp: tasks)
    from k(1) have "fmlookup (Segments leaderView) k \<noteq> None"
      by (auto dest: go_range_lookup)
    with k(2) show ?thesis
      by (intro exI [of _ k]) (simp add: reduceTask_fields)
  qed
  have single: "\<exists>t. filter (\<lambda>t. segmentID (action t) = sid) ?tasks = [t]
                 \<and> kind t = LeaderSegmentTask
                 \<and> task_leaderID t = ID leaderView
                 \<and> action t = NewLeaderAction (ID leaderView) (ID leaderView)
                                ActionTypeReduce (Channel leaderView) sid 0"
    if "?need sid"
  proof -
    from that have "filter (\<lambda>t. segmentID (action t) = sid) ?tasks
                    = [reduceTask replica leaderView sid]"
      unfolding sel one by simp
    then show ?thesis
      by (intro exI [of _ "reduceTask replica leaderView sid"]) (simp add: reduceTask_fields)
  qed
  have gens: "GetSealedSegment (target w) (CollectionID leaderView) sid CurrentTargetFirst = None
          \<longleftrightarrow> currentSegments (target w) (CollectionID leaderView) sid = None
              \<and> nextSegments (target w) (CollectionID leaderView) sid = None"
    unfolding GetSealedSegment_def by (rule byScope_CurrentTargetFirst_None)
  from iff single every gens show ?thesis
    unfolding need by blast
qed

theorem reduce_task_iff_witness:
  "valid_rangeOrder ex_world
   \<and> fmlookup (Segments ex_view) 300 = Some \<lparr>GetNodeID = 2, GetVersion = 1\<rparr>
   \<and> 300 \<notin> GetID ` set ex_dists
   \<and> GetSealedSegment (target ex_world) (CollectionID ex_view) 300 CurrentTargetFirst = None
   \<and> (\<exists>t. filter (\<lambda>t. segmentID (action t) = 300)
             (fst (findNeedRemovedSegments ex_world ex_replica ex_view ex_dists)) = [t]
        \<and> action t = NewLeaderAction 1 1 ActionTypeReduce ''ch1'' 300 0)"
proof -
  have h1: "valid_rangeOrder ex_world"
    by (simp add: valid_rangeOrder_def ex_world_def)
  have h2: "fmlookup (Segments ex_view) 300 = Some \<lparr>GetNodeID = 2, GetVersion = 1\<rparr>"
    by (simp add: ex_view_def)
  have h3: "300 \<notin> GetID ` set ex_dists"
    by (simp add: ex_dists_def ex_seg_def)
  have h4: "GetSealedSegment (target ex_world) (CollectionID ex_view) 300 CurrentTargetFirst
              = None"
    by (simp add: GetSealedSegment_def ex_world_def ex_target_def ex_view_def)
  have v: "ID ex_view = 1" "Channel ex_view = ''ch1''"
    by (simp_all add: ex_view_def)
  from reduce_task_iff [OF h1 h2, of ex_replica ex_dists] h3 h4
  have "\<exists>t. filter (\<lambda>t. segmentID (action t) = 300)
             (fst (findNeedRemovedSegments ex_world ex_replica ex_view ex_dists)) = [t]
        \<and> action t = NewLeaderAction 1 1 ActionTypeReduce ''ch1'' 300 0"
    unfolding v by blast
  with h1 h2 h3 h4 show ?thesis by blast
qed

section \<open>Partition statistics to sync\<close>

lemma partStatsLoop_lookup:
  assumes "distinct (map fst xs)"
  shows "fmlookup (partStatsLoop lvs xs acc) p =
           (case map_of xs p of
              None \<Rightarrow> fmlookup acc p
            | Some v \<Rightarrow>
                if (case fmlookup lvs p of None \<Rightarrow> 0 | Some r \<Rightarrow> r) < v then Some v
                else fmlookup acc p)"
  using assms
proof (induction xs arbitrary: acc)
  case Nil
  show ?case by simp
next
  case (Cons x xs)
  obtain k v where x: "x = (k, v)" by (cases x)
  from Cons.prems x have notin: "k \<notin> fst ` set xs" and d: "distinct (map fst xs)"
    by simp_all
  from notin have none: "map_of xs k = None"
    by (simp add: map_of_eq_None_iff)
  show ?case
  proof (cases "p = k")
    case True
    note ih = Cons.IH [OF d, unfolded True]
    show ?thesis
      unfolding True by (simp add: x Let_def ih none)
  next
    case False
    then show ?thesis
      by (simp add: x Let_def Cons.IH [OF d] split: option.splits)
  qed
qed

lemma batch_lookup:
  assumes "valid_rangeOrder w"
  shows "fmlookup (partStatsLoop lvs (go_range w tgt) fmempty) p = staleVersion lvs tgt p"
  by (simp add: partStatsLoop_lookup [OF go_range_keys_distinct [OF assms]]
        go_range_map_of [OF assms] staleVersion_def split: option.splits)

lemma fmdom_empty_iff:
  "fmdom m = {||} \<longleftrightarrow> (\<forall>p. fmlookup m p = None)"
  by (metis fmdom_notD fmdom_notI fempty_iff fmlookup_dom_iff ex_fin_conv)

lemma findNeedSyncPartitionStats_None:
  assumes "currentDmChannels (target w) (CollectionID lv) (Channel lv) = None"
  shows "findNeedSyncPartitionStats w replica lv node = ([], w)"
  using assms by (simp add: findNeedSyncPartitionStats_def GetDmChannel_def)

lemma findNeedSyncPartitionStats_Some:
  assumes "valid_rangeOrder w"
    and "currentDmChannels (target w) (CollectionID lv) (Channel lv) = Some ch"
  shows "findNeedSyncPartitionStats w replica lv node =
           (let batch = partStatsLoop (PartitionStatsVersions lv)
                          (go_range w (GetPartitionStatsVersions ch)) fmempty
            in if \<forall>p. staleVersion (PartitionStatsVersions lv)
                         (GetPartitionStatsVersions ch) p = None
               then ([], w)
               else ([SetReason ''sync partition stats versions''
                        (SetPriority TaskPriorityLow
                           (NewLeaderPartStatsTask LeaderChecker (CollectionID lv) replica
                              (ID lv)
                              (NewLeaderUpdatePartStatsAction (ID lv) node ActionTypeUpdate
                                 (Channel lv) batch)))], w))"
  using assms(2)
  by (simp add: findNeedSyncPartitionStats_def GetDmChannel_def Let_def fmdom_empty_iff
        batch_lookup [OF assms(1)])

text \<open>
  Claim C3, as the code has it. \<^verbatim>\<open>findNeedSyncPartitionStats\<close> reads the channel descriptor
  of the current target only. With that descriptor, the batch holds exactly the partitions
  whose desired version is greater than the version the view records, each with its desired
  version. A non-empty batch gives exactly one update task carrying the whole batch, for
  the view's ID and the node handed in; an empty batch or a channel missing from the
  current target gives no task.
\<close>

theorem partition_stats_current_target:
  assumes order: "valid_rangeOrder w"
  shows
    "(currentDmChannels (target w) (CollectionID leaderView) (Channel leaderView) = None
        \<longrightarrow> fst (findNeedSyncPartitionStats w replica leaderView node) = [])
     \<and> (\<forall>ch. currentDmChannels (target w) (CollectionID leaderView) (Channel leaderView)
                = Some ch
          \<longrightarrow> ((\<forall>p. staleVersion (PartitionStatsVersions leaderView)
                       (GetPartitionStatsVersions ch) p = None)
                \<longrightarrow> fst (findNeedSyncPartitionStats w replica leaderView node) = [])
            \<and> ((\<exists>p. staleVersion (PartitionStatsVersions leaderView)
                       (GetPartitionStatsVersions ch) p \<noteq> None)
                \<longrightarrow> (\<exists>t batch.
                       fst (findNeedSyncPartitionStats w replica leaderView node) = [t]
                       \<and> kind t = LeaderPartStatsTask
                       \<and> task_leaderID t = ID leaderView
                       \<and> action t = NewLeaderUpdatePartStatsAction (ID leaderView) node
                                      ActionTypeUpdate (Channel leaderView) batch
                       \<and> (\<forall>p. fmlookup batch p =
                                staleVersion (PartitionStatsVersions leaderView)
                                  (GetPartitionStatsVersions ch) p))))"
proof (intro conjI allI impI)
  assume "currentDmChannels (target w) (CollectionID leaderView) (Channel leaderView) = None"
  then show "fst (findNeedSyncPartitionStats w replica leaderView node) = []"
    by (simp add: findNeedSyncPartitionStats_None)
next
  fix ch :: DmChannel
  assume "currentDmChannels (target w) (CollectionID leaderView) (Channel leaderView) = Some ch"
    and "\<forall>p. staleVersion (PartitionStatsVersions leaderView)
               (GetPartitionStatsVersions ch) p = None"
  then show "fst (findNeedSyncPartitionStats w replica leaderView node) = []"
    by (simp add: findNeedSyncPartitionStats_Some [OF order])
next
  fix ch :: DmChannel
  let ?batch = "partStatsLoop (PartitionStatsVersions leaderView)
                  (go_range w (GetPartitionStatsVersions ch)) fmempty"
  let ?t = "SetReason ''sync partition stats versions''
              (SetPriority TaskPriorityLow
                 (NewLeaderPartStatsTask LeaderChecker (CollectionID leaderView) replica
                    (ID leaderView)
                    (NewLeaderUpdatePartStatsAction (ID leaderView) node ActionTypeUpdate
                       (Channel leaderView) ?batch)))"
  assume ch: "currentDmChannels (target w) (CollectionID leaderView) (Channel leaderView)
                = Some ch"
    and "\<exists>p. staleVersion (PartitionStatsVersions leaderView)
               (GetPartitionStatsVersions ch) p \<noteq> None"
  then have "fst (findNeedSyncPartitionStats w replica leaderView node) = [?t]"
    by (simp add: findNeedSyncPartitionStats_Some [OF order ch] Let_def)
  moreover have "kind ?t = LeaderPartStatsTask" "task_leaderID ?t = ID leaderView"
    "action ?t = NewLeaderUpdatePartStatsAction (ID leaderView) node
                   ActionTypeUpdate (Channel leaderView) ?batch"
    by (simp_all add: SetReason_def SetPriority_def NewLeaderPartStatsTask_def)
  moreover have "\<forall>p. fmlookup ?batch p =
                   staleVersion (PartitionStatsVersions leaderView)
                     (GetPartitionStatsVersions ch) p"
    by (simp add: batch_lookup [OF order])
  ultimately show "\<exists>t batch.
      fst (findNeedSyncPartitionStats w replica leaderView node) = [t]
      \<and> kind t = LeaderPartStatsTask
      \<and> task_leaderID t = ID leaderView
      \<and> action t = NewLeaderUpdatePartStatsAction (ID leaderView) node
                     ActionTypeUpdate (Channel leaderView) batch
      \<and> (\<forall>p. fmlookup batch p =
               staleVersion (PartitionStatsVersions leaderView)
                 (GetPartitionStatsVersions ch) p)"
    by blast
qed

theorem partition_stats_current_target_witness:
  "valid_rangeOrder ex_world
   \<and> currentDmChannels (target ex_world) (CollectionID ex_view) (Channel ex_view)
       = Some ex_channel
   \<and> staleVersion (PartitionStatsVersions ex_view) (GetPartitionStatsVersions ex_channel) 2
       = Some 5
   \<and> (\<exists>t batch. fst (findNeedSyncPartitionStats ex_world ex_replica ex_view 1) = [t]
         \<and> action t = NewLeaderUpdatePartStatsAction 1 1 ActionTypeUpdate ''ch1'' batch
         \<and> fmlookup batch 1 = None \<and> fmlookup batch 2 = Some 5)"
proof -
  have h1: "valid_rangeOrder ex_world"
    by (simp add: valid_rangeOrder_def ex_world_def)
  have h2: "currentDmChannels (target ex_world) (CollectionID ex_view) (Channel ex_view)
              = Some ex_channel"
    by (simp add: ex_world_def ex_target_def ex_view_def ex_channel_def)
  have h3: "staleVersion (PartitionStatsVersions ex_view)
              (GetPartitionStatsVersions ex_channel) 2 = Some 5"
    and h4: "staleVersion (PartitionStatsVersions ex_view)
              (GetPartitionStatsVersions ex_channel) 1 = None"
    by (simp_all add: staleVersion_def ex_view_def ex_channel_def)
  have v: "ID ex_view = 1" "Channel ex_view = ''ch1''"
    by (simp_all add: ex_view_def)
  from partition_stats_current_target [OF h1, of ex_view ex_replica 1] h2 h3
  obtain t batch where
    "fst (findNeedSyncPartitionStats ex_world ex_replica ex_view 1) = [t]"
    "action t = NewLeaderUpdatePartStatsAction 1 1 ActionTypeUpdate ''ch1'' batch"
    "\<forall>p. fmlookup batch p = staleVersion (PartitionStatsVersions ex_view)
                               (GetPartitionStatsVersions ex_channel) p"
    unfolding v by (metis option.distinct(1))
  with h3 h4 have "\<exists>t batch. fst (findNeedSyncPartitionStats ex_world ex_replica ex_view 1) = [t]
         \<and> action t = NewLeaderUpdatePartStatsAction 1 1 ActionTypeUpdate ''ch1'' batch
         \<and> fmlookup batch 1 = None \<and> fmlookup batch 2 = Some 5"
    by metis
  with h1 h2 h3 show ?thesis by blast
qed

text \<open>
  Claim C3 as stated reads the descriptor with the current-target-first policy. In the
  cluster below that policy finds the next target's descriptor of \<open>ch1\<close>, which asks for
  version 5 of partition 2, while the view records version 2: the batch of the claim is not
  empty, yet no task is emitted, because the current target has no descriptor of \<open>ch1\<close>.
\<close>

theorem partition_stats_scope_counterexample:
  "GetDmChannel (target nx_world) (CollectionID ex_view) (Channel ex_view) CurrentTargetFirst
     = Some ex_channel
   \<and> fmlookup (GetPartitionStatsVersions ex_channel) 2 = Some 5
   \<and> fmlookup (PartitionStatsVersions ex_view) 2 = Some 2
   \<and> fst (findNeedSyncPartitionStats nx_world ex_replica ex_view 1) = []"
  by (simp add: findNeedSyncPartitionStats_def GetDmChannel_def nx_world_def ex_world_def
        ex_target_def ex_view_def ex_channel_def)

text \<open>
  Claim C10. Let the current target's descriptor of the view's channel be \<open>ch\<close>. A partition
  that \<open>ch\<close> lists and the view does not record is compared as if the view recorded
  version 0: it is in the batch, with its desired version, exactly when that version is
  greater than 0. A partition that \<open>ch\<close> does not list is in no batch, whatever the view
  records for it.
\<close>

theorem partition_stats_missing_is_zero:
  assumes order: "valid_rangeOrder w"
    and ch: "GetDmChannel (target w) (CollectionID leaderView) (Channel leaderView)
               CurrentTarget = Some ch"
  shows
    "(fmlookup (PartitionStatsVersions leaderView) p = None
        \<and> fmlookup (GetPartitionStatsVersions ch) p = Some v \<and> 0 < v
        \<longrightarrow> (\<exists>t. fst (findNeedSyncPartitionStats w replica leaderView node) = [t]
               \<and> Type (action t) = ActionTypeUpdate
               \<and> fmlookup (partStatsVersions (action t)) p = Some v))
     \<and> (fmlookup (PartitionStatsVersions leaderView) p = None
          \<and> fmlookup (GetPartitionStatsVersions ch) p = Some v \<and> \<not> 0 < v
          \<longrightarrow> (\<forall>t \<in> set (fst (findNeedSyncPartitionStats w replica leaderView node)).
                 fmlookup (partStatsVersions (action t)) p = None))
     \<and> (fmlookup (GetPartitionStatsVersions ch) p = None
          \<longrightarrow> (\<forall>t \<in> set (fst (findNeedSyncPartitionStats w replica leaderView node)).
                 fmlookup (partStatsVersions (action t)) p = None))"
proof -
  let ?st = "staleVersion (PartitionStatsVersions leaderView) (GetPartitionStatsVersions ch)"
  from ch have cur: "currentDmChannels (target w) (CollectionID leaderView)
                       (Channel leaderView) = Some ch"
    by (simp add: GetDmChannel_def)
  note run = findNeedSyncPartitionStats_Some [OF order cur, of replica node]
  have in_batch: "fmlookup (partStatsVersions (action t)) q = ?st q"
    if "t \<in> set (fst (findNeedSyncPartitionStats w replica leaderView node))" for t q
    using that
    by (auto simp: run Let_def SetReason_def SetPriority_def NewLeaderPartStatsTask_def
          batch_lookup [OF order] split: if_splits)
  have emitted: "\<exists>t. fst (findNeedSyncPartitionStats w replica leaderView node) = [t]
                   \<and> Type (action t) = ActionTypeUpdate"
    if "?st q \<noteq> None" for q
  proof -
    from that have "\<not> (\<forall>p. ?st p = None)" by auto
    then show ?thesis
      by (simp add: run Let_def SetReason_def SetPriority_def NewLeaderPartStatsTask_def)
  qed
  have a: "\<exists>t. fst (findNeedSyncPartitionStats w replica leaderView node) = [t]
               \<and> Type (action t) = ActionTypeUpdate
               \<and> fmlookup (partStatsVersions (action t)) p = Some v"
    if "fmlookup (PartitionStatsVersions leaderView) p = None"
      "fmlookup (GetPartitionStatsVersions ch) p = Some v" "0 < v"
  proof -
    from that have st: "?st p = Some v"
      by (simp add: staleVersion_def)
    then obtain t where t: "fst (findNeedSyncPartitionStats w replica leaderView node) = [t]"
      "Type (action t) = ActionTypeUpdate"
      using emitted [of p] by auto
    then have "fmlookup (partStatsVersions (action t)) p = Some v"
      using in_batch [of t p] st by simp
    with t show ?thesis by blast
  qed
  have b: "fmlookup (partStatsVersions (action t)) p = None"
    if "fmlookup (PartitionStatsVersions leaderView) p = None"
      "fmlookup (GetPartitionStatsVersions ch) p = Some v" "\<not> 0 < v"
      "t \<in> set (fst (findNeedSyncPartitionStats w replica leaderView node))" for t
    using in_batch [OF that(4), of p] that(1-3) by (simp add: staleVersion_def)
  have c: "fmlookup (partStatsVersions (action t)) p = None"
    if "fmlookup (GetPartitionStatsVersions ch) p = None"
      "t \<in> set (fst (findNeedSyncPartitionStats w replica leaderView node))" for t
    using in_batch [OF that(2), of p] that(1) by (simp add: staleVersion_def)
  from a b c show ?thesis by blast
qed

theorem partition_stats_missing_is_zero_witness:
  "valid_rangeOrder ex_world
   \<and> GetDmChannel (target ex_world)
        (CollectionID (ex_view\<lparr>PartitionStatsVersions := fmap_of_list [(1, 3), (9, 4)]\<rparr>))
        (Channel (ex_view\<lparr>PartitionStatsVersions := fmap_of_list [(1, 3), (9, 4)]\<rparr>))
        CurrentTarget = Some ex_channel
   \<and> fmlookup (fmap_of_list [(1, 3), (9, 4)] :: (int64, int64) fmap) 2 = None
   \<and> fmlookup (GetPartitionStatsVersions ex_channel) 2 = Some 5
   \<and> fmlookup (GetPartitionStatsVersions ex_channel) 9 = None
   \<and> (\<exists>t. fst (findNeedSyncPartitionStats ex_world ex_replica
                 (ex_view\<lparr>PartitionStatsVersions := fmap_of_list [(1, 3), (9, 4)]\<rparr>) 1) = [t]
          \<and> fmlookup (partStatsVersions (action t)) 2 = Some 5
          \<and> fmlookup (partStatsVersions (action t)) 9 = None)"
proof -
  let ?lv = "ex_view\<lparr>PartitionStatsVersions := fmap_of_list [(1, 3), (9, 4)]\<rparr>"
  have h1: "valid_rangeOrder ex_world"
    by (simp add: valid_rangeOrder_def ex_world_def)
  have h2: "GetDmChannel (target ex_world) (CollectionID ?lv) (Channel ?lv) CurrentTarget
              = Some ex_channel"
    by (simp add: GetDmChannel_def ex_world_def ex_target_def ex_view_def ex_channel_def)
  have h3: "fmlookup (PartitionStatsVersions ?lv) 2 = None"
    "fmlookup (GetPartitionStatsVersions ex_channel) 2 = Some 5"
    "fmlookup (GetPartitionStatsVersions ex_channel) 9 = None"
    by (simp_all add: ex_channel_def)
  from partition_stats_missing_is_zero [OF h1 h2, of 2 5 ex_replica 1] h3
  obtain t where t: "fst (findNeedSyncPartitionStats ex_world ex_replica ?lv 1) = [t]"
    "fmlookup (partStatsVersions (action t)) 2 = Some 5"
    by auto
  from partition_stats_missing_is_zero [OF h1 h2, of 9 0 ex_replica 1] h3 t(1)
  have "fmlookup (partStatsVersions (action t)) 9 = None"
    by simp
  with t h1 h2 h3 show ?thesis
    by simp
qed

section \<open>Tasks without their timestamp\<close>

lemma content_growTask:
  "content (growTask replica lv s now) = growTask replica lv s 0"
  by (simp add: content_def growTask_def NewLeaderSegmentTask_def SetPriority_def
        SetReason_def)

lemma content_reduceTask:
  "content (reduceTask replica lv sid) = reduceTask replica lv sid"
  by (simp add: content_def reduceTask_def NewLeaderSegmentTask_def SetPriority_def
        SetReason_def)

lemma content_fields:
  "segmentID (action (content t)) = segmentID (action t)"
  "nodeID (action (content t)) = nodeID (action t)"
  "leaderID (action (content t)) = leaderID (action t)"
  "Type (action (content t)) = Type (action t)"
  "shard (action (content t)) = shard (action t)"
  by (cases "action t"; simp add: content_def)+

lemma loadedLoop_content:
  "map content (fst (loadedLoop w replica lv ss)) =
     map (\<lambda>s. growTask replica lv s 0) (filter (needLoad w lv) ss)"
proof -
  have "map content (map (\<lambda>(k, s). growTask replica lv s (clock w k)) (List.enumerate n xs))
        = map (\<lambda>s. growTask replica lv s 0) xs" for n xs
    by (induction xs arbitrary: n) (simp_all add: content_growTask)
  then show ?thesis
    by (simp add: loadedLoop_closed)
qed

lemma loadedLoop_for_segment:
  "map content (filter (\<lambda>t. segmentID (action t) = S) (fst (loadedLoop w replica lv ss))) =
     map (\<lambda>s. growTask replica lv s 0)
       (filter (needLoad w lv) (filter (\<lambda>s. GetID s = S) ss))"
proof -
  have "map content (filter (\<lambda>t. segmentID (action t) = S) (fst (loadedLoop w replica lv ss)))
        = filter (\<lambda>t. segmentID (action t) = S)
            (map content (fst (loadedLoop w replica lv ss)))"
    by (simp add: filter_map comp_def content_fields)
  also have "\<dots> = map (\<lambda>s. growTask replica lv s 0)
                      (filter (\<lambda>s. GetID s = S) (filter (needLoad w lv) ss))"
    by (simp add: loadedLoop_content filter_map comp_def growTask_fields)
  also have "filter (\<lambda>s. GetID s = S) (filter (needLoad w lv) ss)
             = filter (needLoad w lv) (filter (\<lambda>s. GetID s = S) ss)"
    by (simp add: conj_commute)
  finally show ?thesis .
qed

text \<open>The sub-diff alone: with \<open>S\<close> in the target, no entry for \<open>S\<close> in the view and
  one resolved placement of \<open>S\<close>, on node \<open>N\<close>, it emits one task for \<open>S\<close>; with the view
  sending \<open>S\<close> to node \<open>N\<close> it emits none.\<close>

lemma findNeedLoadedSegments_converges:
  assumes desired: "GetSealedSegment (target w) (CollectionID leaderView) S CurrentTargetFirst
                      \<noteq> None"
    and missing: "fmlookup (Segments leaderView) S = None"
    and placement: "filter (\<lambda>s. GetID s = S) (FindMaxVersionSegments dists) = [s0]"
    and node: "Node s0 = N"
  shows
    "(\<exists>t. filter (\<lambda>t. segmentID (action t) = S)
             (fst (findNeedLoadedSegments w replica leaderView dists)) = [t]
        \<and> Type (action t) = ActionTypeGrow
        \<and> leaderID (action t) = ID leaderView
        \<and> nodeID (action t) = N)
     \<and> (\<forall>w' entry. target w' = target w \<and> GetNodeID entry = N
          \<longrightarrow> filter (\<lambda>t. segmentID (action t) = S)
                (fst (findNeedLoadedSegments w' replica
                        (leaderView\<lparr>Segments := fmupd S entry (Segments leaderView)\<rparr>) dists))
              = [])"
proof -
  let ?ss = "FindMaxVersionSegments dists"
  from placement have "s0 \<in> set (filter (\<lambda>s. GetID s = S) ?ss)"
    by simp
  then have s0: "GetID s0 = S"
    by simp
  have need: "needLoad w leaderView s0"
    using desired missing by (simp add: needLoad_def s0)
  let ?tasks = "filter (\<lambda>t. segmentID (action t) = S)
                  (fst (findNeedLoadedSegments w replica leaderView dists))"
  have "map content ?tasks = [growTask replica leaderView s0 0]"
    using need
    by (simp add: findNeedLoadedSegments_def loadedLoop_for_segment placement)
  then obtain t where t: "?tasks = [t]" "content t = growTask replica leaderView s0 0"
    by (auto simp: map_eq_Cons_conv)
  have "Type (action t) = ActionTypeGrow" "leaderID (action t) = ID leaderView"
    "nodeID (action t) = N"
    using content_fields [of t, unfolded t(2)] node
    by (simp_all add: growTask_fields)
  with t(1) have first: "\<exists>t. ?tasks = [t] \<and> Type (action t) = ActionTypeGrow
        \<and> leaderID (action t) = ID leaderView \<and> nodeID (action t) = N"
    by blast
  have second: "filter (\<lambda>t. segmentID (action t) = S)
                (fst (findNeedLoadedSegments w' replica
                        (leaderView\<lparr>Segments := fmupd S entry (Segments leaderView)\<rparr>) dists))
              = []"
    if "target w' = target w" "GetNodeID entry = N" for w' entry
  proof -
    let ?lv' = "leaderView\<lparr>Segments := fmupd S entry (Segments leaderView)\<rparr>"
    have "\<not> needLoad w' ?lv' s0"
      using that node by (simp add: needLoad_def s0)
    then have "map content (filter (\<lambda>t. segmentID (action t) = S)
                 (fst (findNeedLoadedSegments w' replica ?lv' dists))) = []"
      by (simp add: findNeedLoadedSegments_def loadedLoop_for_segment placement)
    then show ?thesis
      by simp
  qed
  from first second show ?thesis
    by blast
qed

section \<open>The activation gate\<close>

text \<open>
  Claim C6. With the gate inactive \<^verbatim>\<open>Check\<close> returns the empty task list and leaves the
  state as it found it: no reader is scanned and the clock is not read, whatever the views,
  the observed placements and the targets are.
\<close>

theorem inactive_gate:
  assumes "\<not> IsActive w"
  shows "Check w = ([], w)"
  using assms by (simp add: Check_def)

theorem inactive_gate_witness:
  "\<not> IsActive (ex_world\<lparr>active := False\<rparr>)
   \<and> Check (ex_world\<lparr>active := False\<rparr>) = ([], ex_world\<lparr>active := False\<rparr>)
   \<and> fst (Check ex_world) \<noteq> []"
proof -
  have h: "\<not> IsActive (ex_world\<lparr>active := False\<rparr>)"
    by (simp add: IsActive_def)
  have "fst (Check ex_world) \<noteq> []"
    by code_simp
  with h inactive_gate [OF h] show ?thesis
    by simp
qed

section \<open>No effect on the readers\<close>

lemma only_ticks_refl: "only_ticks w w"
  unfolding only_ticks_def by (rule exI [of _ "ticks w"]) simp

lemma only_ticks_trans: "only_ticks w w1 \<Longrightarrow> only_ticks w1 w2 \<Longrightarrow> only_ticks w w2"
  unfolding only_ticks_def by auto

lemma only_ticks_fields:
  assumes "only_ticks w w'"
  shows "active w' = active w" "meta w' = meta w" "dist w' = dist w" "target w' = target w"
    "IsStreamingServiceEnabled w' = IsStreamingServiceEnabled w"
    "AllPartitionsID w' = AllPartitionsID w" "clock w' = clock w"
    "rangeOrder w' = rangeOrder w"
  using assms by (auto simp: only_ticks_def)

lemma forEach_only_ticks:
  assumes "\<And>x v. only_ticks v (snd (body x v))"
  shows "only_ticks w (snd (forEach body xs w))"
proof (induction xs arbitrary: w)
  case Nil
  show ?case by (simp add: only_ticks_refl)
next
  case (Cons x xs)
  have "only_ticks w (snd (body x w))"
    by (rule assms)
  moreover have "only_ticks (snd (body x w)) (snd (forEach body xs (snd (body x w))))"
    by (rule Cons.IH)
  ultimately show ?case
    by (auto simp: split_beta dest: only_ticks_trans)
qed

lemma findNeedLoadedSegments_only_ticks:
  "only_ticks w (snd (findNeedLoadedSegments w replica lv dists))"
  unfolding only_ticks_def findNeedLoadedSegments_def Let_def loadedLoop_closed
  by auto

lemma findNeedRemovedSegments_snd:
  "snd (findNeedRemovedSegments w replica lv dists) = w"
  by (simp add: findNeedRemovedSegments_def Let_def)

lemma findNeedSyncPartitionStats_snd:
  "snd (findNeedSyncPartitionStats w replica lv node) = w"
  by (simp add: findNeedSyncPartitionStats_def Let_def split: option.splits)

lemma checkDelegator_only_ticks:
  "only_ticks w (snd (checkDelegator replica node d w))"
  using findNeedLoadedSegments_only_ticks
    [of w replica "View d" "SegmentDist_GetByFilter (dist w) (Channel (View d)) replica"]
  by (simp add: checkDelegator_def Let_def split_beta findNeedRemovedSegments_snd
        findNeedSyncPartitionStats_snd)

lemma checkNode_only_ticks:
  "only_ticks w (snd (checkNode replica node w))"
  unfolding checkNode_def Let_def
  by (rule forEach_only_ticks) (rule checkDelegator_only_ticks)

lemma checkReplica_only_ticks:
  "only_ticks w (snd (checkReplica replica w))"
  unfolding checkReplica_def Let_def
  by (rule forEach_only_ticks) (rule checkNode_only_ticks)

lemma checkCollection_only_ticks:
  "only_ticks w (snd (checkCollection collectionID w))"
  unfolding checkCollection_def Let_def
  by (auto simp: only_ticks_refl split: option.splits
        intro: forEach_only_ticks checkReplica_only_ticks)

lemma Check_only_ticks:
  "only_ticks w (snd (Check w))"
  unfolding Check_def Let_def
  by (auto simp: only_ticks_refl intro: forEach_only_ticks checkCollection_only_ticks)

text \<open>
  Claim C9. \<^verbatim>\<open>Check\<close> and the three sub-diffs leave the topology reader, the observed
  distribution (which holds the leader views) and the target state as they found them, and
  the gate and the process configuration as well: the state after a run is the state
  before it, up to the number of clock readings taken. The task list is the only output.
\<close>

theorem readers_unchanged:
  "meta (snd (Check w)) = meta w
   \<and> dist (snd (Check w)) = dist w
   \<and> target (snd (Check w)) = target w
   \<and> snd (Check w) = w\<lparr>ticks := ticks (snd (Check w))\<rparr>
   \<and> snd (findNeedLoadedSegments w replica leaderView dists)
       = w\<lparr>ticks := ticks (snd (findNeedLoadedSegments w replica leaderView dists))\<rparr>
   \<and> snd (findNeedRemovedSegments w replica leaderView dists) = w
   \<and> snd (findNeedSyncPartitionStats w replica leaderView node) = w"
proof -
  have "snd (Check w) = w\<lparr>ticks := ticks (snd (Check w))\<rparr>"
    using Check_only_ticks [of w] by (auto simp: only_ticks_def)
  moreover have "snd (findNeedLoadedSegments w replica leaderView dists)
       = w\<lparr>ticks := ticks (snd (findNeedLoadedSegments w replica leaderView dists))\<rparr>"
    using findNeedLoadedSegments_only_ticks [of w replica leaderView dists]
    by (auto simp: only_ticks_def)
  ultimately show ?thesis
    using only_ticks_fields [OF Check_only_ticks [of w]]
    by (simp add: findNeedRemovedSegments_snd findNeedSyncPartitionStats_snd)
qed

theorem readers_unchanged_witness:
  "meta (snd (Check ex_world)) = meta ex_world
   \<and> dist (snd (Check ex_world)) = dist ex_world
   \<and> target (snd (Check ex_world)) = target ex_world
   \<and> ticks (snd (Check ex_world)) = 2"
proof -
  have "ticks (snd (Check ex_world)) = 2"
    by code_simp
  with readers_unchanged [of ex_world ex_replica ex_view ex_dists 1] show ?thesis
    by simp
qed

section \<open>Collections that are not ready\<close>

lemma forEach_append:
  "forEach body (xs @ ys) w =
     (let (ts, w1) = forEach body xs w;
          (ts', w2) = forEach body ys w1
      in (ts @ ts', w2))"
  by (induction xs arbitrary: w) (simp_all add: split_beta)

lemma checkCollection_skip:
  assumes "GetCollection (meta w) c = None
           \<or> (\<not> IsNextTargetExist (target w) c
               \<and> \<not> IsCurrentTargetExist (target w) c (AllPartitionsID w))"
  shows "checkCollection c w = ([], w)"
  using assms by (auto simp: checkCollection_def readyToCheck_def)

text \<open>
  Claim C7. A collection whose metadata the topology reader does not have, or for which
  neither the next nor the current target exists, yields no task and leaves the state
  alone; \<^verbatim>\<open>Check\<close> raises no error for it and goes on: with that collection anywhere in
  the list of collection IDs, the result of \<^verbatim>\<open>Check\<close> is the result of scanning the
  other collections in their order.
\<close>

theorem unready_collection_skipped:
  assumes unready: "GetCollection (meta w) c = None
                    \<or> (\<not> IsNextTargetExist (target w) c
                        \<and> \<not> IsCurrentTargetExist (target w) c (AllPartitionsID w))"
    and gate: "IsActive w"
    and ids: "GetAll (meta w) = cs1 @ c # cs2"
  shows "checkCollection c w = ([], w)
         \<and> Check w = forEach checkCollection (cs1 @ cs2) w"
proof -
  let ?w1 = "snd (forEach checkCollection cs1 w)"
  have frame: "only_ticks w ?w1"
    by (rule forEach_only_ticks) (rule checkCollection_only_ticks)
  have "GetCollection (meta ?w1) c = None
        \<or> (\<not> IsNextTargetExist (target ?w1) c
            \<and> \<not> IsCurrentTargetExist (target ?w1) c (AllPartitionsID ?w1))"
    using unready only_ticks_fields [OF frame] by simp
  then have skip: "checkCollection c ?w1 = ([], ?w1)"
    by (rule checkCollection_skip)
  have "forEach checkCollection (cs1 @ c # cs2) w = forEach checkCollection (cs1 @ cs2) w"
    by (simp add: forEach_append split_beta skip)
  then have "Check w = forEach checkCollection (cs1 @ cs2) w"
    using gate ids by (simp add: Check_def)
  with checkCollection_skip [OF unready] show ?thesis
    by simp
qed

theorem unready_collection_skipped_witness:
  "(GetCollection (meta ex_world) 2 = None
    \<or> (\<not> IsNextTargetExist (target ex_world) 2
        \<and> \<not> IsCurrentTargetExist (target ex_world) 2 (AllPartitionsID ex_world)))
   \<and> IsActive ex_world
   \<and> GetAll (meta ex_world) = [1] @ 2 # []
   \<and> checkCollection 2 ex_world = ([], ex_world)
   \<and> Check ex_world = forEach checkCollection [1] ex_world"
proof -
  have h1: "GetCollection (meta ex_world) 2 = None
    \<or> (\<not> IsNextTargetExist (target ex_world) 2
        \<and> \<not> IsCurrentTargetExist (target ex_world) 2 (AllPartitionsID ex_world))"
    by (simp add: ex_world_def)
  have h2: "IsActive ex_world"
    by (simp add: IsActive_def ex_world_def)
  have h3: "GetAll (meta ex_world) = [1] @ 2 # []"
    by (simp add: ex_world_def)
  from unready_collection_skipped [OF h1 h2 h3] h1 h2 h3 show ?thesis
    by simp
qed

section \<open>Priority and reason of the tasks\<close>

text \<open>
  Claim C8. Every task of \<^verbatim>\<open>findNeedLoadedSegments\<close> is a grow task of low priority with
  reason "add segment to leader view"; every task of \<^verbatim>\<open>findNeedRemovedSegments\<close> is a
  reduce task of low priority with reason "remove segment from leader view"; every task of
  \<^verbatim>\<open>findNeedSyncPartitionStats\<close> is an update task of low priority with reason "sync
  partition stats versions".
\<close>

theorem tasks_low_priority:
  "(\<forall>t \<in> set (fst (findNeedLoadedSegments w replica leaderView dists)).
      Type (action t) = ActionTypeGrow \<and> priority t = TaskPriorityLow
      \<and> reason t = ''add segment to leader view'')
   \<and> (\<forall>t \<in> set (fst (findNeedRemovedSegments w replica leaderView dists)).
        Type (action t) = ActionTypeReduce \<and> priority t = TaskPriorityLow
        \<and> reason t = ''remove segment from leader view'')
   \<and> (\<forall>t \<in> set (fst (findNeedSyncPartitionStats w replica leaderView node)).
        Type (action t) = ActionTypeUpdate \<and> priority t = TaskPriorityLow
        \<and> reason t = ''sync partition stats versions'')"
proof (intro conjI ballI)
  fix t
  assume "t \<in> set (fst (findNeedLoadedSegments w replica leaderView dists))"
  then obtain s now where "t = growTask replica leaderView s now"
    using loadedLoop_sound [of t w replica leaderView "FindMaxVersionSegments dists"]
    by (auto simp: findNeedLoadedSegments_def)
  then show "Type (action t) = ActionTypeGrow" "priority t = TaskPriorityLow"
    "reason t = ''add segment to leader view''"
    by (simp_all add: growTask_fields)
next
  fix t
  assume "t \<in> set (fst (findNeedRemovedSegments w replica leaderView dists))"
  then obtain sid where "t = reduceTask replica leaderView sid"
    by (auto simp: findNeedRemovedSegments_def removedLoop_closed)
  then show "Type (action t) = ActionTypeReduce" "priority t = TaskPriorityLow"
    "reason t = ''remove segment from leader view''"
    by (simp_all add: reduceTask_fields)
next
  fix t
  assume "t \<in> set (fst (findNeedSyncPartitionStats w replica leaderView node))"
  then have "Type (action t) = ActionTypeUpdate \<and> priority t = TaskPriorityLow
    \<and> reason t = ''sync partition stats versions''"
    by (auto simp: findNeedSyncPartitionStats_def Let_def SetReason_def SetPriority_def
          NewLeaderPartStatsTask_def split: option.splits if_splits)
  then show "Type (action t) = ActionTypeUpdate" "priority t = TaskPriorityLow"
    "reason t = ''sync partition stats versions''"
    by simp_all
qed

theorem tasks_low_priority_witness:
  "(\<exists>t \<in> set (fst (findNeedLoadedSegments ex_world ex_replica ex_view ex_dists)).
      Type (action t) = ActionTypeGrow \<and> priority t = TaskPriorityLow
      \<and> reason t = ''add segment to leader view'')
   \<and> (\<exists>t \<in> set (fst (findNeedRemovedSegments ex_world ex_replica ex_view ex_dists)).
        Type (action t) = ActionTypeReduce \<and> priority t = TaskPriorityLow
        \<and> reason t = ''remove segment from leader view'')
   \<and> (\<exists>t \<in> set (fst (findNeedSyncPartitionStats ex_world ex_replica ex_view 1)).
        Type (action t) = ActionTypeUpdate \<and> priority t = TaskPriorityLow
        \<and> reason t = ''sync partition stats versions'')"
proof -
  have n1: "fst (findNeedLoadedSegments ex_world ex_replica ex_view ex_dists) \<noteq> []"
    by code_simp
  have n2: "fst (findNeedRemovedSegments ex_world ex_replica ex_view ex_dists) \<noteq> []"
    by code_simp
  have n3: "fst (findNeedSyncPartitionStats ex_world ex_replica ex_view 1) \<noteq> []"
    by code_simp
  from n1 n2 n3 obtain t1 t2 t3 where
    "t1 \<in> set (fst (findNeedLoadedSegments ex_world ex_replica ex_view ex_dists))"
    "t2 \<in> set (fst (findNeedRemovedSegments ex_world ex_replica ex_view ex_dists))"
    "t3 \<in> set (fst (findNeedSyncPartitionStats ex_world ex_replica ex_view 1))"
    by (meson last_in_set)
  with tasks_low_priority [of ex_world ex_replica ex_view ex_dists 1] show ?thesis
    by blast
qed

section \<open>Two runs on one snapshot\<close>

lemma comparable_only_ticks:
  assumes "comparable w w'" and "only_ticks w v" and "only_ticks w' v'"
  shows "comparable v v'"
  using assms(1) only_ticks_fields [OF assms(2)] only_ticks_fields [OF assms(3)]
  by (simp add: comparable_def same_snapshot_def valid_rangeOrder_def)

lemma needLoad_target:
  "target w = target w' \<Longrightarrow> needLoad w lv = needLoad w' lv"
  by (rule ext) (simp add: needLoad_def)

lemma needRemove_target:
  "target w = target w' \<Longrightarrow> needRemove w lv dm = needRemove w' lv dm"
  by (rule ext) (simp add: needRemove_def)

lemma findNeedLoadedSegments_content:
  assumes "comparable w w'"
  shows "map content (fst (findNeedLoadedSegments w replica lv dists))
         = map content (fst (findNeedLoadedSegments w' replica lv dists))"
proof -
  from assms have "target w = target w'"
    by (simp add: comparable_def same_snapshot_def)
  then show ?thesis
    by (simp add: findNeedLoadedSegments_def loadedLoop_content needLoad_target [of w w'])
qed

lemma findNeedRemovedSegments_mset:
  assumes "comparable w w'"
  shows "mset (fst (findNeedRemovedSegments w replica lv dists))
         = mset (fst (findNeedRemovedSegments w' replica lv dists))"
proof -
  from assms have tgt: "target w = target w'"
    and v: "valid_rangeOrder w" and v': "valid_rangeOrder w'"
    by (simp_all add: comparable_def same_snapshot_def)
  let ?dm = "fold (\<lambda>s m. finsert (GetID s) m) dists {||}"
  have keys: "mset (map fst (go_range w (Segments lv)))
              = mset (map fst (go_range w' (Segments lv)))"
    by (simp only: go_range_keys_mset [OF v] go_range_keys_mset [OF v'])
  have "mset (map (reduceTask replica lv) (filter P (map fst (go_range w (Segments lv)))))
        = mset (map (reduceTask replica lv) (filter P (map fst (go_range w' (Segments lv)))))"
    for P
    using keys by (metis mset_filter mset_map)
  then show ?thesis
    by (simp only: findNeedRemovedSegments_def Let_def fst_conv removedLoop_closed
          needRemove_target [OF tgt])
qed

lemma findNeedSyncPartitionStats_fst:
  assumes "comparable w w'"
  shows "fst (findNeedSyncPartitionStats w replica lv node)
         = fst (findNeedSyncPartitionStats w' replica lv node)"
proof -
  from assms have tgt: "target w = target w'"
    and v: "valid_rangeOrder w" and v': "valid_rangeOrder w'"
    by (simp_all add: comparable_def same_snapshot_def)
  show ?thesis
  proof (cases "currentDmChannels (target w) (CollectionID lv) (Channel lv)")
    case None
    then show ?thesis
      using tgt by (simp add: findNeedSyncPartitionStats_None)
  next
    case (Some ch)
    have "partStatsLoop (PartitionStatsVersions lv) (go_range w (GetPartitionStatsVersions ch))
            fmempty
          = partStatsLoop (PartitionStatsVersions lv)
              (go_range w' (GetPartitionStatsVersions ch)) fmempty"
      by (rule fmap_ext) (simp add: batch_lookup [OF v] batch_lookup [OF v'])
    then show ?thesis
      using Some tgt
      by (simp add: findNeedSyncPartitionStats_Some [OF v Some]
            findNeedSyncPartitionStats_Some [OF v', of lv ch] Let_def)
  qed
qed

lemma checkDelegator_content:
  assumes "comparable w w'"
  shows "image_mset content (mset (fst (checkDelegator replica node d w)))
         = image_mset content (mset (fst (checkDelegator replica node d w')))"
proof -
  from assms have dist: "dist w = dist w'"
    by (simp add: comparable_def same_snapshot_def)
  let ?ds = "SegmentDist_GetByFilter (dist w) (Channel (View d)) replica"
  let ?w1 = "snd (findNeedLoadedSegments w replica (View d) ?ds)"
  let ?w1' = "snd (findNeedLoadedSegments w' replica (View d) ?ds)"
  have c1: "comparable ?w1 ?w1'"
    by (rule comparable_only_ticks [OF assms])
       (rule findNeedLoadedSegments_only_ticks)+
  have l: "image_mset content (mset (fst (findNeedLoadedSegments w replica (View d) ?ds)))
           = image_mset content (mset (fst (findNeedLoadedSegments w' replica (View d) ?ds)))"
    using findNeedLoadedSegments_content [OF assms, of replica "View d" ?ds]
    by (metis mset_map)
  have r: "mset (fst (findNeedRemovedSegments ?w1 replica (View d) ?ds))
           = mset (fst (findNeedRemovedSegments ?w1' replica (View d) ?ds))"
    by (rule findNeedRemovedSegments_mset [OF c1])
  have s: "fst (findNeedSyncPartitionStats ?w1 replica (View d) node)
           = fst (findNeedSyncPartitionStats ?w1' replica (View d) node)"
    by (rule findNeedSyncPartitionStats_fst [OF c1])
  show ?thesis
    using l r s
    by (simp add: checkDelegator_def Let_def split_beta findNeedRemovedSegments_snd
          dist [symmetric])
qed

lemma forEach_content:
  assumes body: "\<And>x v v'. comparable v v' \<Longrightarrow>
      image_mset content (mset (fst (body x v))) = image_mset content (mset (fst (body x v')))"
    and frame: "\<And>x v. only_ticks v (snd (body x v))"
    and "comparable w w'"
  shows "image_mset content (mset (fst (forEach body xs w)))
         = image_mset content (mset (fst (forEach body xs w')))"
  using assms(3)
proof (induction xs arbitrary: w w')
  case Nil
  show ?case by simp
next
  case (Cons x xs)
  have "comparable (snd (body x w)) (snd (body x w'))"
    by (rule comparable_only_ticks [OF Cons.prems]) (rule frame)+
  from Cons.IH [OF this] body [OF Cons.prems, of x] show ?case
    by (simp add: split_beta)
qed

lemma checkNode_content:
  assumes "comparable w w'"
  shows "image_mset content (mset (fst (checkNode replica node w)))
         = image_mset content (mset (fst (checkNode replica node w')))"
proof -
  from assms have "dist w = dist w'"
    by (simp add: comparable_def same_snapshot_def)
  then show ?thesis
    unfolding checkNode_def Let_def
    using forEach_content [of "checkDelegator replica node", OF checkDelegator_content
        checkDelegator_only_ticks assms]
    by simp
qed

lemma checkReplica_content:
  assumes "comparable w w'"
  shows "image_mset content (mset (fst (checkReplica replica w)))
         = image_mset content (mset (fst (checkReplica replica w')))"
proof -
  from assms have "IsStreamingServiceEnabled w = IsStreamingServiceEnabled w'"
    by (simp add: comparable_def same_snapshot_def)
  then show ?thesis
    unfolding checkReplica_def Let_def
    using forEach_content [of "checkNode replica", OF checkNode_content
        checkNode_only_ticks assms]
    by simp
qed

lemma checkCollection_content:
  assumes "comparable w w'"
  shows "image_mset content (mset (fst (checkCollection c w)))
         = image_mset content (mset (fst (checkCollection c w')))"
proof -
  from assms have eq: "meta w = meta w'" "target w = target w'"
    "AllPartitionsID w = AllPartitionsID w'"
    by (simp_all add: comparable_def same_snapshot_def)
  then have ready: "readyToCheck w c = readyToCheck w' c"
    by (simp add: readyToCheck_def)
  show ?thesis
    unfolding checkCollection_def Let_def ready
    using forEach_content [of checkReplica, OF checkReplica_content
        checkReplica_only_ticks assms]
    by (simp add: eq(1) split: option.splits)
qed

text \<open>
  Claim C4. Take two runs of \<^verbatim>\<open>Check\<close> that see the same gate, the same three readers and
  the same process configuration; the clock and the order in which the runtime visits the
  keys of a map may differ between them. Both runs return the same tasks, each as often as
  the other, when the timestamp hint of the grow tasks is left out of the comparison: the
  task kind, the collection, the replica, the view, the worker node, the channel, the
  subject, the priority and the reason all agree.
\<close>

theorem check_same_content:
  assumes "same_snapshot w w'"
    and "valid_rangeOrder w"
    and "valid_rangeOrder w'"
  shows "image_mset content (mset (fst (Check w)))
         = image_mset content (mset (fst (Check w')))"
proof -
  from assms have c: "comparable w w'"
    by (simp add: comparable_def)
  from assms(1) have eq: "active w = active w'" "meta w = meta w'"
    by (simp_all add: same_snapshot_def)
  show ?thesis
    unfolding Check_def Let_def IsActive_def
    using forEach_content [of checkCollection, OF checkCollection_content
        checkCollection_only_ticks c]
    by (simp add: eq)
qed

theorem check_same_content_witness:
  "same_snapshot ex_world
     (ex_world\<lparr>clock := (\<lambda>k. 5000 + 2 * int k), ticks := 7, rangeOrder := (\<lambda>ks. ks)\<rparr>)
   \<and> valid_rangeOrder ex_world
   \<and> valid_rangeOrder
       (ex_world\<lparr>clock := (\<lambda>k. 5000 + 2 * int k), ticks := 7, rangeOrder := (\<lambda>ks. ks)\<rparr>)
   \<and> image_mset content (mset (fst (Check ex_world)))
     = image_mset content (mset (fst (Check
         (ex_world\<lparr>clock := (\<lambda>k. 5000 + 2 * int k), ticks := 7,
                    rangeOrder := (\<lambda>ks. ks)\<rparr>))))
   \<and> map (version \<circ> action) (take 2 (fst (Check ex_world))) = [1000, 1001]
   \<and> map (version \<circ> action) (take 2 (fst (Check
         (ex_world\<lparr>clock := (\<lambda>k. 5000 + 2 * int k), ticks := 7,
                    rangeOrder := (\<lambda>ks. ks)\<rparr>)))) = [5014, 5016]"
proof -
  let ?w' = "ex_world\<lparr>clock := (\<lambda>k. 5000 + 2 * int k), ticks := 7, rangeOrder := (\<lambda>ks. ks)\<rparr>"
  have h1: "same_snapshot ex_world ?w'"
    by (simp add: same_snapshot_def)
  have h2: "valid_rangeOrder ex_world"
    by (simp add: valid_rangeOrder_def ex_world_def)
  have h3: "valid_rangeOrder ?w'"
    by (simp add: valid_rangeOrder_def)
  have t1: "map (version \<circ> action) (take 2 (fst (Check ex_world))) = [1000, 1001]"
    by code_simp
  have t2: "map (version \<circ> action) (take 2 (fst (Check ?w'))) = [5014, 5016]"
    by code_simp
  from check_same_content [OF h1 h2 h3] h1 h2 h3 t1 t2 show ?thesis
    by simp
qed

section \<open>Convergence of a grow correction\<close>

lemma go_range_only_ticks:
  "only_ticks w v \<Longrightarrow> go_range v m = go_range w m"
  by (auto simp: only_ticks_def go_range_def)

lemma findNeedRemovedSegments_only_ticks:
  assumes "only_ticks w v"
  shows "fst (findNeedRemovedSegments v replica lv dists)
         = fst (findNeedRemovedSegments w replica lv dists)"
  using only_ticks_fields(4) [OF assms]
  by (simp add: findNeedRemovedSegments_def Let_def removedLoop_closed
        go_range_only_ticks [OF assms] needRemove_target [of v w])

lemma findNeedSyncPartitionStats_only_ticks:
  assumes "only_ticks w v"
  shows "fst (findNeedSyncPartitionStats v replica lv node)
         = fst (findNeedSyncPartitionStats w replica lv node)"
  using only_ticks_fields(4) [OF assms]
  by (simp add: findNeedSyncPartitionStats_def Let_def go_range_only_ticks [OF assms]
        split: option.splits)

lemma findNeedLoadedSegments_only_ticks_content:
  assumes "only_ticks w v"
  shows "map content (fst (findNeedLoadedSegments v replica lv dists))
         = map content (fst (findNeedLoadedSegments w replica lv dists))"
  using only_ticks_fields(4) [OF assms]
  by (simp add: findNeedLoadedSegments_def loadedLoop_content needLoad_target [of v w])

lemma checkDelegator_fst:
  "fst (checkDelegator replica node d w) =
     fst (findNeedLoadedSegments w replica (View d)
            (SegmentDist_GetByFilter (dist w) (Channel (View d)) replica))
     @ fst (findNeedRemovedSegments w replica (View d)
            (SegmentDist_GetByFilter (dist w) (Channel (View d)) replica))
     @ fst (findNeedSyncPartitionStats w replica (View d) node)"
proof -
  let ?ds = "SegmentDist_GetByFilter (dist w) (Channel (View d)) replica"
  let ?w1 = "snd (findNeedLoadedSegments w replica (View d) ?ds)"
  have f: "only_ticks w ?w1"
    by (rule findNeedLoadedSegments_only_ticks)
  show ?thesis
    by (simp add: checkDelegator_def Let_def split_beta findNeedRemovedSegments_snd
          findNeedRemovedSegments_only_ticks [OF f] findNeedSyncPartitionStats_only_ticks [OF f])
qed

lemma checkDelegator_only_ticks_content:
  assumes "only_ticks w v"
  shows "map content (fst (checkDelegator replica node d v))
         = map content (delegatorTasks w (replica, node, d))"
  using only_ticks_fields(3) [OF assms]
  by (simp add: delegatorTasks_def checkDelegator_fst
        findNeedLoadedSegments_only_ticks_content [OF assms]
        findNeedRemovedSegments_only_ticks [OF assms]
        findNeedSyncPartitionStats_only_ticks [OF assms])

lemma forEach_content_concat:
  assumes inv: "\<And>x v. only_ticks w v \<Longrightarrow> map content (fst (body x v)) = g x"
    and frame: "\<And>x v. only_ticks v (snd (body x v))"
    and "only_ticks w v"
  shows "map content (fst (forEach body xs v)) = concat (map g xs)"
  using assms(3)
proof (induction xs arbitrary: v)
  case Nil
  show ?case by simp
next
  case (Cons x xs)
  have "only_ticks w (snd (body x v))"
    by (rule only_ticks_trans [OF Cons.prems frame])
  from Cons.IH [OF this] inv [OF Cons.prems, of x] show ?case
    by (simp add: split_beta)
qed

lemma checkNode_content_concat:
  assumes "only_ticks w v"
  shows "map content (fst (checkNode replica node v)) =
           concat (map (\<lambda>d. map content (delegatorTasks w (replica, node, d)))
             (ChannelDist_GetByFilter (dist w) (Replica_GetCollectionID replica) node))"
  unfolding checkNode_def Let_def only_ticks_fields(3) [OF assms]
  by (rule forEach_content_concat [where w = w, OF _ checkDelegator_only_ticks assms])
     (rule checkDelegator_only_ticks_content)

lemma checkReplica_content_concat:
  assumes "only_ticks w v"
  shows "map content (fst (checkReplica replica v)) =
           concat (map (\<lambda>node.
             concat (map (\<lambda>d. map content (delegatorTasks w (replica, node, d)))
               (ChannelDist_GetByFilter (dist w) (Replica_GetCollectionID replica) node)))
             (if IsStreamingServiceEnabled w then GetRWSQNodes replica
              else GetRWNodes replica))"
  unfolding checkReplica_def Let_def only_ticks_fields(5) [OF assms]
  by (rule forEach_content_concat [where w = w, OF _ checkNode_only_ticks assms])
     (rule checkNode_content_concat)

lemma checkCollection_content_concat:
  assumes "only_ticks w v"
  shows "map content (fst (checkCollection c v)) =
           (if readyToCheck w c \<and> GetCollection (meta w) c \<noteq> None
            then concat (map (\<lambda>replica. concat (map (\<lambda>node.
                   concat (map (\<lambda>d. map content (delegatorTasks w (replica, node, d)))
                     (ChannelDist_GetByFilter (dist w) (Replica_GetCollectionID replica) node)))
                   (if IsStreamingServiceEnabled w then GetRWSQNodes replica
                    else GetRWNodes replica)))
                 (GetByCollection (meta w) c))
            else [])"
proof -
  have ready: "readyToCheck v c = readyToCheck w c"
    using only_ticks_fields [OF assms] by (simp add: readyToCheck_def)
  have m: "meta v = meta w"
    by (rule only_ticks_fields(2) [OF assms])
  show ?thesis
    unfolding checkCollection_def Let_def ready m
    using forEach_content_concat [where w = w and body = checkReplica
        and xs = "GetByCollection (meta w) c",
        OF checkReplica_content_concat checkReplica_only_ticks assms]
    by (auto split: option.splits)
qed

lemma concat_map_concat_map:
  "concat (map f (concat (map g xs))) = concat (map (\<lambda>x. concat (map f (g x))) xs)"
  by (induction xs) simp_all

lemma if_concat_map:
  "L = concat (map G R) \<Longrightarrow> (if b then L else []) = concat (map G (if b then R else []))"
  by simp

lemma Check_content_concat:
  assumes "IsActive w"
  shows "map content (fst (Check w))
         = concat (map (\<lambda>x. map content (delegatorTasks w x)) (delegators w))"
proof -
  have "map content (fst (forEach checkCollection (GetAll (meta w)) w))
        = concat (map (\<lambda>c. if readyToCheck w c \<and> GetCollection (meta w) c \<noteq> None
            then concat (map (\<lambda>replica. concat (map (\<lambda>node.
                   concat (map (\<lambda>d. map content (delegatorTasks w (replica, node, d)))
                     (ChannelDist_GetByFilter (dist w) (Replica_GetCollectionID replica) node)))
                   (if IsStreamingServiceEnabled w then GetRWSQNodes replica
                    else GetRWNodes replica)))
                 (GetByCollection (meta w) c))
            else []) (GetAll (meta w)))"
    by (rule forEach_content_concat [where w = w, OF _ checkCollection_only_ticks
          only_ticks_refl])
       (rule checkCollection_content_concat)
  also have "\<dots> = concat (map (\<lambda>x. map content (delegatorTasks w x)) (delegators w))"
    unfolding delegators_def concat_map_concat_map
  proof (intro arg_cong [where f = concat] map_cong refl)
    fix c
    show "(if readyToCheck w c \<and> GetCollection (meta w) c \<noteq> None
            then concat (map (\<lambda>replica. concat (map (\<lambda>node.
                   concat (map (\<lambda>d. map content (delegatorTasks w (replica, node, d)))
                     (ChannelDist_GetByFilter (dist w) (Replica_GetCollectionID replica) node)))
                   (if IsStreamingServiceEnabled w then GetRWSQNodes replica
                    else GetRWNodes replica)))
                 (GetByCollection (meta w) c))
            else [])
          = concat (map (\<lambda>x. map content (delegatorTasks w x))
              (if readyToCheck w c \<and> GetCollection (meta w) c \<noteq> None
               then concat (map (\<lambda>replica.
                      concat (map (\<lambda>node.
                        map (\<lambda>d. (replica, node, d))
                          (ChannelDist_GetByFilter (dist w) (Replica_GetCollectionID replica)
                             node))
                        (if IsStreamingServiceEnabled w then GetRWSQNodes replica
                         else GetRWNodes replica)))
                      (GetByCollection (meta w) c))
               else []))"
      by (rule if_concat_map) (simp add: concat_map_concat_map comp_def)
  qed
  finally show ?thesis
    using assms by (simp add: Check_def)
qed

lemma findNeedLoadedSegments_tasks:
  assumes "t \<in> set (fst (findNeedLoadedSegments w replica lv dists))"
  shows "Type (action t) = ActionTypeGrow" "leaderID (action t) = ID lv"
    "segmentID (action t) \<in> GetID ` set dists"
proof -
  from assms obtain s now where s: "s \<in> set (FindMaxVersionSegments dists)"
    and t: "t = growTask replica lv s now"
    using loadedLoop_sound [of t w replica lv "FindMaxVersionSegments dists"]
    by (auto simp: findNeedLoadedSegments_def)
  from s have "s \<in> set dists"
    by (simp add: FindMaxVersionSegments_def)
  with t show "Type (action t) = ActionTypeGrow" "leaderID (action t) = ID lv"
    "segmentID (action t) \<in> GetID ` set dists"
    by (simp_all add: growTask_fields)
qed

lemma findNeedRemovedSegments_tasks:
  assumes "t \<in> set (fst (findNeedRemovedSegments w replica lv dists))"
  shows "Type (action t) = ActionTypeReduce"
  using assms
  by (auto simp: findNeedRemovedSegments_def removedLoop_closed reduceTask_fields)

lemma findNeedSyncPartitionStats_tasks:
  assumes "t \<in> set (fst (findNeedSyncPartitionStats w replica lv node))"
  shows "Type (action t) = ActionTypeUpdate"
  using assms
  by (auto simp: findNeedSyncPartitionStats_def Let_def SetReason_def SetPriority_def
        NewLeaderPartStatsTask_def split: option.splits if_splits)

lemma delegatorTasks_grow:
  assumes "\<And>t. Q t \<Longrightarrow> Type (action t) = ActionTypeGrow"
  shows "filter Q (delegatorTasks w (replica, node, d))
         = filter Q (fst (findNeedLoadedSegments w replica (View d)
                            (SegmentDist_GetByFilter (dist w) (Channel (View d)) replica)))"
proof -
  have "filter Q (fst (findNeedRemovedSegments w replica (View d) ds)) = []" for ds
    using assms by (auto simp: filter_empty_conv dest: findNeedRemovedSegments_tasks)
  moreover have "filter Q (fst (findNeedSyncPartitionStats w replica (View d) node)) = []"
    using assms by (auto simp: filter_empty_conv dest: findNeedSyncPartitionStats_tasks)
  ultimately show ?thesis
    by (simp add: delegatorTasks_def checkDelegator_fst)
qed

lemma Check_filter_one_delegator:
  assumes gate: "IsActive w"
    and scan: "delegators w = pre @ (replica, node, d) # post"
    and Qc: "\<And>t. Q (content t) = Q t"
    and Qg: "\<And>t. Q t \<Longrightarrow> Type (action t) = ActionTypeGrow"
    and others: "\<And>y t. y \<in> set (pre @ post) \<Longrightarrow> t \<in> set (delegatorTasks w y) \<Longrightarrow> \<not> Q t"
  shows "map content (filter Q (fst (Check w)))
         = map content (filter Q (fst (findNeedLoadedSegments w replica (View d)
             (SegmentDist_GetByFilter (dist w) (Channel (View d)) replica))))"
proof -
  have swap: "map content (filter Q ts) = filter Q (map content ts)" for ts
    by (simp add: filter_map comp_def Qc)
  have none: "concat (map (\<lambda>y. filter Q (map content (delegatorTasks w y))) ys) = []"
    if "set ys \<subseteq> set (pre @ post)" for ys
  proof -
    have "filter Q (map content (delegatorTasks w y)) = []" if "y \<in> set ys" for y
      using others [of y] that \<open>set ys \<subseteq> set (pre @ post)\<close>
      by (auto simp: filter_empty_conv Qc)
    then show ?thesis
      by simp
  qed
  have "map content (filter Q (fst (Check w)))
        = concat (map (\<lambda>y. filter Q (map content (delegatorTasks w y))) (delegators w))"
    by (simp add: swap Check_content_concat [OF gate] filter_concat comp_def)
  also have "\<dots> = filter Q (map content (delegatorTasks w (replica, node, d)))"
  proof -
    have "concat (map (\<lambda>y. filter Q (map content (delegatorTasks w y))) pre) = []"
      "concat (map (\<lambda>y. filter Q (map content (delegatorTasks w y))) post) = []"
      by (rule none, simp)+
    then show ?thesis
      unfolding scan by (simp only: map_append list.map concat_append concat.simps
          append_Nil append_Nil2)
  qed
  also have "\<dots> = map content (filter Q (delegatorTasks w (replica, node, d)))"
    by (simp add: swap)
  finally show ?thesis
    by (simp only: delegatorTasks_grow [of Q, OF Qg])
qed

lemma delegators_applyGrow:
  "delegators (applyGrow L C S entry w)
   = map (\<lambda>(r, n, d). (r, n, setRoute L C S entry d)) (delegators w)"
proof -
  have ready: "readyToCheck (applyGrow L C S entry w) = readyToCheck w"
    by (rule ext) (simp add: readyToCheck_def applyGrow_def)
  show ?thesis
    unfolding delegators_def ready
    by (simp add: applyGrow_def map_concat comp_def if_distrib [of "map _"] cong: if_cong)
qed

lemma setRoute_view:
  "ID (View (setRoute L C S entry d)) = ID (View d)"
  "Channel (View (setRoute L C S entry d)) = Channel (View d)"
  "CollectionID (View (setRoute L C S entry d)) = CollectionID (View d)"
  by (simp_all add: setRoute_def)

lemma delegatorTasks_grow_from:
  assumes "t \<in> set (delegatorTasks w (r, n, d))" and "Type (action t) = ActionTypeGrow"
  shows "leaderID (action t) = ID (View d)"
    "segmentID (action t)
       \<in> GetID ` set (SegmentDist_GetByFilter (dist w) (Channel (View d)) r)"
proof -
  from assms have "t \<in> set (filter (\<lambda>t. Type (action t) = ActionTypeGrow)
                            (delegatorTasks w (r, n, d)))"
    by simp
  then have "t \<in> set (fst (findNeedLoadedSegments w r (View d)
                             (SegmentDist_GetByFilter (dist w) (Channel (View d)) r)))"
    by (simp add: delegatorTasks_grow [of "\<lambda>t. Type (action t) = ActionTypeGrow"])
  from findNeedLoadedSegments_tasks(2,3) [OF this]
  show "leaderID (action t) = ID (View d)"
    "segmentID (action t)
       \<in> GetID ` set (SegmentDist_GetByFilter (dist w) (Channel (View d)) r)"
    by simp_all
qed

lemma delegators_ticks:
  "delegators (w\<lparr>ticks := n\<rparr>) = delegators w"
  by (simp add: delegators_def readyToCheck_def cong: if_cong)

lemma Check_converges_for:
  assumes gate: "IsActive w"
    and scan: "delegators w = pre @ (replica, node, d) # post"
    and view: "View d = leaderView"
    and desired: "GetSealedSegment (target w) (CollectionID leaderView) S CurrentTargetFirst
                    \<noteq> None"
    and missing: "fmlookup (Segments leaderView) S = None"
    and placement: "filter (\<lambda>s. GetID s = S)
                      (FindMaxVersionSegments
                         (SegmentDist_GetByFilter (dist w) (Channel leaderView) replica))
                    = [s0]"
    and node: "Node s0 = N"
    and Qc: "\<And>t. Q (content t) = Q t"
    and Qg: "\<And>t. Q t \<Longrightarrow> Type (action t) = ActionTypeGrow"
    and Qs: "\<And>t. Type (action t) = ActionTypeGrow \<Longrightarrow> leaderID (action t) = ID leaderView
               \<Longrightarrow> Q t = (segmentID (action t) = S)"
    and others: "\<And>r' n' d' t. (r', n', d') \<in> set (pre @ post)
               \<Longrightarrow> Type (action t) = ActionTypeGrow
               \<Longrightarrow> leaderID (action t) = ID (View d')
               \<Longrightarrow> segmentID (action t)
                     \<in> GetID ` set (SegmentDist_GetByFilter (dist w) (Channel (View d')) r')
               \<Longrightarrow> \<not> Q t"
  shows "(\<exists>t. filter Q (fst (Check w)) = [t]
            \<and> leaderID (action t) = ID leaderView \<and> nodeID (action t) = N)
         \<and> (\<forall>n entry. GetNodeID entry = N
              \<longrightarrow> filter Q (fst (Check (applyGrow (ID leaderView) (Channel leaderView) S entry
                                         (w\<lparr>ticks := n\<rparr>)))) = [])"
proof -
  let ?ds = "SegmentDist_GetByFilter (dist w) (Channel leaderView) replica"
  note sub = findNeedLoadedSegments_converges [OF desired missing placement node, of replica]
  have Qsub: "filter Q (fst (findNeedLoadedSegments v replica lv ?ds))
              = filter (\<lambda>t. segmentID (action t) = S)
                  (fst (findNeedLoadedSegments v replica lv ?ds))"
    if "ID lv = ID leaderView" for v lv
    by (rule filter_cong [OF refl])
       (simp add: Qs findNeedLoadedSegments_tasks(1,2) that)
  have first: "\<exists>t. filter Q (fst (Check w)) = [t]
            \<and> leaderID (action t) = ID leaderView \<and> nodeID (action t) = N"
  proof -
    from sub obtain t0 where t0:
      "filter (\<lambda>t. segmentID (action t) = S)
         (fst (findNeedLoadedSegments w replica leaderView ?ds)) = [t0]"
      "leaderID (action t0) = ID leaderView" "nodeID (action t0) = N"
      by blast
    have "\<And>y t. y \<in> set (pre @ post) \<Longrightarrow> t \<in> set (delegatorTasks w y) \<Longrightarrow> \<not> Q t"
    proof -
      fix y t
      assume y: "y \<in> set (pre @ post)" and t: "t \<in> set (delegatorTasks w y)"
      obtain r' n' d' where y': "y = (r', n', d')"
        by (cases y)
      show "\<not> Q t"
      proof
        assume "Q t"
        then have g: "Type (action t) = ActionTypeGrow"
          by (rule Qg)
        from others [OF y [unfolded y'] g
            delegatorTasks_grow_from [OF t [unfolded y'] g]] \<open>Q t\<close>
        show False by simp
      qed
    qed
    from Check_filter_one_delegator [of w pre replica node d post Q, OF gate scan Qc Qg this]
    have "map content (filter Q (fst (Check w))) = map content [t0]"
      by (simp only: view Qsub [OF refl] t0(1))
    then obtain t where "filter Q (fst (Check w)) = [t]" "content t = content t0"
      by (auto simp: map_eq_Cons_conv)
    moreover from this(2) have "leaderID (action t) = ID leaderView" "nodeID (action t) = N"
      using content_fields(2,3) [of t] content_fields(2,3) [of t0] t0(2,3)
      by simp_all
    ultimately show ?thesis
      by blast
  qed
  have second: "filter Q (fst (Check (applyGrow (ID leaderView) (Channel leaderView) S entry
                                         (w\<lparr>ticks := n\<rparr>)))) = []"
    if entry: "GetNodeID entry = N" for n entry
  proof -
    let ?F = "\<lambda>(r, n, d). (r, n, setRoute (ID leaderView) (Channel leaderView) S entry d)"
    let ?w2 = "applyGrow (ID leaderView) (Channel leaderView) S entry (w\<lparr>ticks := n\<rparr>)"
    let ?lv2 = "leaderView\<lparr>Segments := fmupd S entry (Segments leaderView)\<rparr>"
    have gate2: "IsActive ?w2"
      using gate by (simp add: IsActive_def applyGrow_def)
    have d2: "setRoute (ID leaderView) (Channel leaderView) S entry d = d\<lparr>View := ?lv2\<rparr>"
      by (simp add: setRoute_def view)
    have scan2: "delegators ?w2
                 = map ?F pre @ (replica, node, d\<lparr>View := ?lv2\<rparr>) # map ?F post"
      by (simp add: delegators_applyGrow delegators_ticks scan d2)
    have sd: "SegmentDist_GetByFilter (dist ?w2) = SegmentDist_GetByFilter (dist w)"
      and tgt: "target ?w2 = target w"
      by (simp_all add: applyGrow_def)
    have "\<And>y t. y \<in> set (map ?F pre @ map ?F post) \<Longrightarrow> t \<in> set (delegatorTasks ?w2 y)
            \<Longrightarrow> \<not> Q t"
    proof -
      fix y t
      assume y: "y \<in> set (map ?F pre @ map ?F post)" and t: "t \<in> set (delegatorTasks ?w2 y)"
      then obtain r' n' d' where y0: "(r', n', d') \<in> set (pre @ post)"
        and y': "y = (r', n', setRoute (ID leaderView) (Channel leaderView) S entry d')"
        by auto
      show "\<not> Q t"
      proof
        assume "Q t"
        then have g: "Type (action t) = ActionTypeGrow"
          by (rule Qg)
        from delegatorTasks_grow_from [OF t [unfolded y'] g]
        have "leaderID (action t) = ID (View d')"
          "segmentID (action t)
             \<in> GetID ` set (SegmentDist_GetByFilter (dist w) (Channel (View d')) r')"
          by (simp_all add: setRoute_view sd)
        from others [OF y0 g this] \<open>Q t\<close> show False
          by simp
      qed
    qed
    from Check_filter_one_delegator [of ?w2 "map ?F pre" replica node "d\<lparr>View := ?lv2\<rparr>"
        "map ?F post" Q, OF gate2 scan2 Qc Qg this]
    have "map content (filter Q (fst (Check ?w2)))
          = map content (filter (\<lambda>t. segmentID (action t) = S)
              (fst (findNeedLoadedSegments ?w2 replica ?lv2 ?ds)))"
      using Qsub [of ?lv2 ?w2] by (simp add: sd)
    also have "\<dots> = []"
      using sub tgt entry by simp
    finally show ?thesis
      by simp
  qed
  from first second show ?thesis
    by blast
qed

text \<open>
  Claim C5. Let the gate be active and let the scan of \<^verbatim>\<open>Check\<close> visit a delegator whose
  view has no entry for segment \<open>S\<close>, while \<open>S\<close> is in the target and its only resolved
  observed placement for the view's channel and the replica is on node \<open>N\<close>. Let no other
  visited delegator with the same view ID observe \<open>S\<close>. Then \<^verbatim>\<open>Check\<close> returns exactly one
  grow task for \<open>S\<close> addressed to that view, and it names node \<open>N\<close>. After the view's
  segment map sends \<open>S\<close> to an entry on node \<open>N\<close>, a run of \<^verbatim>\<open>Check\<close> on the otherwise
  unchanged cluster, at any state of the clock, returns no grow task for \<open>S\<close> addressed to
  that view. If no other visited delegator observes \<open>S\<close> at all, both statements hold of
  the grow tasks for \<open>S\<close> whatever view they are addressed to.
\<close>

theorem check_grow_converges:
  assumes gate: "IsActive w"
    and scan: "delegators w = pre @ (replica, node, d) # post"
    and view: "View d = leaderView"
    and others: "\<forall>(r', n', d') \<in> set (pre @ post).
                   ID (View d') = ID leaderView
                   \<longrightarrow> S \<notin> GetID ` set (SegmentDist_GetByFilter (dist w) (Channel (View d')) r')"
    and desired: "GetSealedSegment (target w) (CollectionID leaderView) S CurrentTargetFirst
                    \<noteq> None"
    and missing: "fmlookup (Segments leaderView) S = None"
    and placement: "filter (\<lambda>s. GetID s = S)
                      (FindMaxVersionSegments
                         (SegmentDist_GetByFilter (dist w) (Channel leaderView) replica))
                    = [s0]"
    and node: "Node s0 = N"
  shows
    "(\<exists>t. filter (\<lambda>t. Type (action t) = ActionTypeGrow \<and> segmentID (action t) = S
                     \<and> leaderID (action t) = ID leaderView)
             (fst (Check w)) = [t]
        \<and> nodeID (action t) = N)
     \<and> (\<forall>n entry. GetNodeID entry = N
          \<longrightarrow> filter (\<lambda>t. Type (action t) = ActionTypeGrow \<and> segmentID (action t) = S
                           \<and> leaderID (action t) = ID leaderView)
                (fst (Check (applyGrow (ID leaderView) (Channel leaderView) S entry
                               (w\<lparr>ticks := n\<rparr>))))
              = [])
     \<and> ((\<forall>(r', n', d') \<in> set (pre @ post).
            S \<notin> GetID ` set (SegmentDist_GetByFilter (dist w) (Channel (View d')) r'))
        \<longrightarrow> (\<exists>t. filter (\<lambda>t. Type (action t) = ActionTypeGrow \<and> segmentID (action t) = S)
                    (fst (Check w)) = [t]
               \<and> leaderID (action t) = ID leaderView \<and> nodeID (action t) = N)
            \<and> (\<forall>n entry. GetNodeID entry = N
                 \<longrightarrow> filter (\<lambda>t. Type (action t) = ActionTypeGrow \<and> segmentID (action t) = S)
                       (fst (Check (applyGrow (ID leaderView) (Channel leaderView) S entry
                                      (w\<lparr>ticks := n\<rparr>))))
                     = []))"
proof -
  have scoped:
    "(\<exists>t. filter (\<lambda>t. Type (action t) = ActionTypeGrow \<and> segmentID (action t) = S
                     \<and> leaderID (action t) = ID leaderView)
             (fst (Check w)) = [t]
        \<and> leaderID (action t) = ID leaderView \<and> nodeID (action t) = N)
     \<and> (\<forall>n entry. GetNodeID entry = N
          \<longrightarrow> filter (\<lambda>t. Type (action t) = ActionTypeGrow \<and> segmentID (action t) = S
                           \<and> leaderID (action t) = ID leaderView)
                (fst (Check (applyGrow (ID leaderView) (Channel leaderView) S entry
                               (w\<lparr>ticks := n\<rparr>))))
              = [])"
  proof (rule Check_converges_for [OF gate scan view desired missing placement node])
    fix r' n' d' t
    assume y: "(r', n', d') \<in> set (pre @ post)" and l: "leaderID (action t) = ID (View d')"
      and m: "segmentID (action t)
         \<in> GetID ` set (SegmentDist_GetByFilter (dist w) (Channel (View d')) r')"
    from others y have "ID (View d') = ID leaderView
      \<longrightarrow> S \<notin> GetID ` set (SegmentDist_GetByFilter (dist w) (Channel (View d')) r')"
      by fast
    with l m show "\<not> (Type (action t) = ActionTypeGrow \<and> segmentID (action t) = S
                         \<and> leaderID (action t) = ID leaderView)"
      by metis
  qed (simp_all add: content_fields)
  have unscoped:
    "(\<exists>t. filter (\<lambda>t. Type (action t) = ActionTypeGrow \<and> segmentID (action t) = S)
             (fst (Check w)) = [t]
        \<and> leaderID (action t) = ID leaderView \<and> nodeID (action t) = N)
     \<and> (\<forall>n entry. GetNodeID entry = N
          \<longrightarrow> filter (\<lambda>t. Type (action t) = ActionTypeGrow \<and> segmentID (action t) = S)
                (fst (Check (applyGrow (ID leaderView) (Channel leaderView) S entry
                               (w\<lparr>ticks := n\<rparr>))))
              = [])"
    if alone: "\<forall>(r', n', d') \<in> set (pre @ post).
            S \<notin> GetID ` set (SegmentDist_GetByFilter (dist w) (Channel (View d')) r')"
  proof (rule Check_converges_for [OF gate scan view desired missing placement node])
    fix r' n' d' t
    assume y: "(r', n', d') \<in> set (pre @ post)"
      and m: "segmentID (action t)
         \<in> GetID ` set (SegmentDist_GetByFilter (dist w) (Channel (View d')) r')"
    from alone y have
      "S \<notin> GetID ` set (SegmentDist_GetByFilter (dist w) (Channel (View d')) r')"
      by fast
    with m show "\<not> (Type (action t) = ActionTypeGrow \<and> segmentID (action t) = S)"
      by metis
  qed (simp_all add: content_fields)
  from scoped unscoped show ?thesis
    by blast
qed

theorem check_grow_converges_witness:
  "IsActive ex_world
   \<and> delegators ex_world
       = [] @ (ex_replica, 1, \<lparr>View = ex_view, GetPartitionStatsVersions = fmempty\<rparr>) # []
   \<and> GetSealedSegment (target ex_world) (CollectionID ex_view) 200 CurrentTargetFirst \<noteq> None
   \<and> fmlookup (Segments ex_view) 200 = None
   \<and> filter (\<lambda>s. GetID s = 200)
       (FindMaxVersionSegments
          (SegmentDist_GetByFilter (dist ex_world) (Channel ex_view) ex_replica))
     = [ex_seg 200 2 1]
   \<and> Node (ex_seg 200 2 1) = 2
   \<and> (\<exists>t. filter (\<lambda>t. Type (action t) = ActionTypeGrow \<and> segmentID (action t) = 200)
             (fst (Check ex_world)) = [t]
        \<and> leaderID (action t) = 1 \<and> nodeID (action t) = 2)
   \<and> filter (\<lambda>t. Type (action t) = ActionTypeGrow \<and> segmentID (action t) = 200)
       (fst (Check (applyGrow 1 ''ch1'' 200 \<lparr>GetNodeID = 2, GetVersion = 1001\<rparr>
                      (ex_world\<lparr>ticks := 2\<rparr>))))
     = []"
proof -
  let ?d = "\<lparr>View = ex_view, GetPartitionStatsVersions = fmempty\<rparr>"
  have h1: "IsActive ex_world"
    by (simp add: IsActive_def ex_world_def)
  have h2: "delegators ex_world = [] @ (ex_replica, 1, ?d) # []"
    by (simp add: delegators_def readyToCheck_def ex_world_def ex_target_def ex_replica_def)
  have h3: "View ?d = ex_view"
    by simp
  have h4: "\<forall>(r', n', d') \<in> set ([] @ []).
              ID (View d') = ID ex_view
              \<longrightarrow> 200 \<notin> GetID ` set (SegmentDist_GetByFilter (dist ex_world)
                                        (Channel (View d')) r')"
    by simp
  have h5: "GetSealedSegment (target ex_world) (CollectionID ex_view) 200 CurrentTargetFirst
              \<noteq> None"
    by (simp add: GetSealedSegment_def ex_world_def ex_target_def ex_view_def)
  have h6: "fmlookup (Segments ex_view) 200 = None"
    by (simp add: ex_view_def)
  have h7: "filter (\<lambda>s. GetID s = 200)
              (FindMaxVersionSegments
                 (SegmentDist_GetByFilter (dist ex_world) (Channel ex_view) ex_replica))
            = [ex_seg 200 2 1]"
    by (simp add: FindMaxVersionSegments_def ex_world_def ex_view_def ex_dists_def ex_seg_def)
  have h8: "Node (ex_seg 200 2 1) = 2"
    by (simp add: ex_seg_def)
  have v: "ID ex_view = 1" "Channel ex_view = ''ch1''"
    by (simp_all add: ex_view_def)
  have e: "GetNodeID \<lparr>GetNodeID = 2, GetVersion = 1001\<rparr> = 2"
    by simp
  note conv = check_grow_converges [OF h1 h2 h3 h4 h5 h6 h7 h8, unfolded v]
  from conv have a: "\<exists>t. filter (\<lambda>t. Type (action t) = ActionTypeGrow
                                  \<and> segmentID (action t) = 200)
             (fst (Check ex_world)) = [t]
        \<and> leaderID (action t) = 1 \<and> nodeID (action t) = 2"
    by simp
  from conv e have b: "filter (\<lambda>t. Type (action t) = ActionTypeGrow \<and> segmentID (action t) = 200)
       (fst (Check (applyGrow 1 ''ch1'' 200 \<lparr>GetNodeID = 2, GetVersion = 1001\<rparr>
                      (ex_world\<lparr>ticks := 2\<rparr>))))
     = []"
    by simp
  from h1 h2 h5 h6 h7 h8 a b show ?thesis
    by blast
qed

end
